theory Spec2Isabelle
  imports Complex_Main "HOL-Library.AList" "HOL-Library.Log_Nat"
begin

section \<open>Scroll Binder: CSS values bound to the scroll position\<close>

text \<open>
  A shallow embedding of \<^verbatim>\<open>src/scroll-binder.js\<close>. A JavaScript number is a binary64
  floating-point number. The numbers given to the program (the fields of a tweening
  object, the scroll position) are finite and are written as the real numbers they
  denote; the results of the arithmetic of the program are values of the type
  \<open>float64\<close>, which has the infinities and NaN besides, and each operation rounds its
  exact result to binary64. Where a number that may be NaN, and is finite otherwise, is
  passed on (the result of \<^verbatim>\<open>parseFloat\<close>, the result of the function that
  \<^verbatim>\<open>buildPropertyFunction\<close> returns, a number the user gives as \<^verbatim>\<open>over\<close>), it is an
  \<open>option\<close> with \<open>None\<close> for NaN.
  JavaScript objects used as dictionaries are association lists in enumeration order
  (the order of \<^verbatim>\<open>for ... in\<close>, which for keys that are no array indices, as CSS property
  names and selectors are, is the order of insertion).
\<close>

subsection \<open>Binary64 arithmetic\<close>

text \<open>
  The values of a JavaScript number: NaN, the two infinities and the finite numbers. The
  two zeros of binary64 are not told apart: the program compares numbers and converts them
  to strings, which does not tell them apart either, and the sign of a zero shows only
  in a division by it (see \<open>js_div\<close>).
\<close>

datatype float64 = NaN | NegInfinity | Finite real | PosInfinity

text \<open>The nearest integer, a tie going to the even one.\<close>

definition rne :: "real \<Rightarrow> int" where
  "rne x =
     (let f = \<lfloor>x\<rfloor>
      in if x - of_int f < 1 / 2 then f
         else if x - of_int f > 1 / 2 then f + 1
         else if even f then f else f + 1)"

text \<open>
  The binary exponent of a positive real \<open>a\<close>: the integer \<open>e\<close> with \<open>2 ^ e \<le> a < 2 ^ (e + 1)\<close>,
  computed from the number of bits of an integer.
\<close>

definition floor_log2 :: "real \<Rightarrow> int" where
  "floor_log2 a = (if 1 \<le> a then bitlen \<lfloor>a\<rfloor> - 1 else - bitlen (\<lceil>1 / a\<rceil> - 1))"

text \<open>
  The magnitude of the binary64 number nearest to a positive real, were the exponent
  unbounded above: 53 significant bits at the exponent of the real, which is at least
  \<open>-1022\<close> (below, the numbers are subnormal and \<open>2 ^ -1074\<close> apart); a tie goes to the even
  significand.
\<close>

definition round_magnitude :: "real \<Rightarrow> real" where
  "round_magnitude a =
     (let e = max (floor_log2 a) (- 1022);
          u = 2 powi (e - 52)
      in of_int (rne (a / u)) * u)"

text \<open>
  Rounding of an exact result to binary64 (round to nearest, ties to even): a result
  whose rounded magnitude reaches \<open>2 ^ 1024\<close> overflows to an infinity.
\<close>

definition round64 :: "real \<Rightarrow> float64" where
  "round64 x =
     (if x = 0 then Finite 0
      else if 2 ^ 1024 \<le> round_magnitude \<bar>x\<bar>
      then (if 0 < x then PosInfinity else NegInfinity)
      else Finite (if 0 < x then round_magnitude \<bar>x\<bar> else - round_magnitude \<bar>x\<bar>))"

text \<open>The operators \<^verbatim>\<open>+\<close>, \<^verbatim>\<open>-\<close>, \<^verbatim>\<open>*\<close> and \<^verbatim>\<open>/\<close> on numbers.\<close>

fun js_add :: "float64 \<Rightarrow> float64 \<Rightarrow> float64" where
  "js_add NaN y = NaN"
| "js_add x NaN = NaN"
| "js_add PosInfinity NegInfinity = NaN"
| "js_add NegInfinity PosInfinity = NaN"
| "js_add PosInfinity y = PosInfinity"
| "js_add NegInfinity y = NegInfinity"
| "js_add x PosInfinity = PosInfinity"
| "js_add x NegInfinity = NegInfinity"
| "js_add (Finite x) (Finite y) = round64 (x + y)"

fun js_neg :: "float64 \<Rightarrow> float64" where
  "js_neg NaN = NaN"
| "js_neg NegInfinity = PosInfinity"
| "js_neg PosInfinity = NegInfinity"
| "js_neg (Finite x) = Finite (- x)"

definition js_sub :: "float64 \<Rightarrow> float64 \<Rightarrow> float64" where
  "js_sub x y = js_add x (js_neg y)"

fun js_mul :: "float64 \<Rightarrow> float64 \<Rightarrow> float64" where
  "js_mul NaN y = NaN"
| "js_mul x NaN = NaN"
| "js_mul (Finite x) (Finite y) = round64 (x * y)"
| "js_mul (Finite x) PosInfinity =
     (if x = 0 then NaN else if 0 < x then PosInfinity else NegInfinity)"
| "js_mul (Finite x) NegInfinity =
     (if x = 0 then NaN else if 0 < x then NegInfinity else PosInfinity)"
| "js_mul PosInfinity (Finite y) =
     (if y = 0 then NaN else if 0 < y then PosInfinity else NegInfinity)"
| "js_mul NegInfinity (Finite y) =
     (if y = 0 then NaN else if 0 < y then NegInfinity else PosInfinity)"
| "js_mul PosInfinity PosInfinity = PosInfinity"
| "js_mul PosInfinity NegInfinity = NegInfinity"
| "js_mul NegInfinity PosInfinity = NegInfinity"
| "js_mul NegInfinity NegInfinity = PosInfinity"

text \<open>
  A division by zero gives NaN for the dividend zero, and an infinity otherwise, whose
  sign is that of the dividend for the positive zero; the divisor zero of the model is
  the positive zero.
\<close>

fun js_div :: "float64 \<Rightarrow> float64 \<Rightarrow> float64" where
  "js_div NaN y = NaN"
| "js_div x NaN = NaN"
| "js_div (Finite x) (Finite y) =
     (if y = 0 then (if x = 0 then NaN else if 0 < x then PosInfinity else NegInfinity)
      else round64 (x / y))"
| "js_div (Finite x) PosInfinity = Finite 0"
| "js_div (Finite x) NegInfinity = Finite 0"
| "js_div PosInfinity (Finite y) = (if 0 \<le> y then PosInfinity else NegInfinity)"
| "js_div NegInfinity (Finite y) = (if 0 \<le> y then NegInfinity else PosInfinity)"
| "js_div x y = NaN"

text \<open>The comparisons \<^verbatim>\<open><\<close> and \<^verbatim>\<open>>\<close>: false when an operand is NaN.\<close>

fun js_lt :: "float64 \<Rightarrow> float64 \<Rightarrow> bool" where
  "js_lt NaN y = False"
| "js_lt x NaN = False"
| "js_lt PosInfinity y = False"
| "js_lt x NegInfinity = False"
| "js_lt NegInfinity y = True"
| "js_lt x PosInfinity = True"
| "js_lt (Finite x) (Finite y) = (x < y)"

definition js_gt :: "float64 \<Rightarrow> float64 \<Rightarrow> bool" where
  "js_gt x y = js_lt y x"

text \<open>
  \<^verbatim>\<open>Math.round\<close>: the nearest integer, a tie going to the larger one; an infinity and NaN
  are returned as they are.
\<close>

fun Math_round :: "float64 \<Rightarrow> float64" where
  "Math_round (Finite x) = Finite (of_int \<lfloor>x + 1 / 2\<rfloor>)"
| "Math_round x = x"

subsection \<open>The interpolation function\<close>

text \<open>
  The argument of \<^verbatim>\<open>Math.round\<close> in the first statement of the function that
  \<^verbatim>\<open>buildPropertyFunction\<close> returns:
  \<^verbatim>\<open>(from + (to - from) * scrollPos / over) * 100\<close>.
\<close>

definition scaledValue :: "real \<Rightarrow> real \<Rightarrow> real \<Rightarrow> real \<Rightarrow> float64" where
  "scaledValue from to over scrollPos =
     js_mul (js_add (Finite from)
               (js_div (js_mul (js_sub (Finite to) (Finite from)) (Finite scrollPos))
                  (Finite over)))
       (Finite 100)"

text \<open>
  The first statement:
  \<^verbatim>\<open>var newValue = Math.round((from + (to - from) * scrollPos / over) * 100) / 100\<close>.
\<close>

definition roundedValue :: "real \<Rightarrow> real \<Rightarrow> real \<Rightarrow> real \<Rightarrow> float64" where
  "roundedValue from to over scrollPos =
     js_div (Math_round (scaledValue from to over scrollPos)) (Finite 100)"

text \<open>
  The two conditional assignments that force \<^verbatim>\<open>newValue\<close> between \<^verbatim>\<open>from\<close> and \<^verbatim>\<open>to\<close>.
\<close>

definition forceBetween :: "real \<Rightarrow> real \<Rightarrow> float64 \<Rightarrow> float64" where
  "forceBetween from to newValue =
     (if from < to
      then (if js_lt newValue (Finite from) then Finite from
            else if js_gt newValue (Finite to) then Finite to else newValue)
      else (if js_gt newValue (Finite from) then Finite from
            else if js_lt newValue (Finite to) then Finite to else newValue))"

text \<open>
  A number that is NaN or finite, as an \<open>option\<close>. (An infinity is no such number; what
  \<open>forceBetween\<close> returns is never one, see \<open>forceBetween_not_infinite\<close>.)
\<close>

fun number_of :: "float64 \<Rightarrow> real option" where
  "number_of (Finite x) = Some x"
| "number_of x = None"

text \<open>
  \<^verbatim>\<open>buildPropertyFunction(from, to, over)\<close> returns a closure over its three arguments; the
  closure is the partial application of the function below, and what it returns is NaN
  (\<open>None\<close>) or a finite number.
\<close>

definition buildPropertyFunction :: "real \<Rightarrow> real \<Rightarrow> real \<Rightarrow> real \<Rightarrow> real option" where
  "buildPropertyFunction from to over scrollPos =
     number_of (forceBetween from to (roundedValue from to over scrollPos))"

text \<open>
  Rounding half away from zero, as the specification words the rounding step: the
  magnitude is rounded, a tie going up, and the sign is put back. \<open>round_half_away\<close>
  rounds to an integer, \<open>round_half_away_hundredths\<close> at the hundredths digit; \<open>exactRaw\<close> is
  the raw value of the specification, \<^verbatim>\<open>from + (to - from) * scrollPos / over\<close> in exact
  arithmetic, for a divisor that is not zero.
\<close>

definition round_half_away :: "real \<Rightarrow> int" where
  "round_half_away x = (if x < 0 then - \<lfloor>- x + 1 / 2\<rfloor> else \<lfloor>x + 1 / 2\<rfloor>)"

definition round_half_away_hundredths :: "real \<Rightarrow> real" where
  "round_half_away_hundredths x = of_int (round_half_away (x * 100)) / 100"

definition exactRaw :: "real \<Rightarrow> real \<Rightarrow> real \<Rightarrow> real \<Rightarrow> real" where
  "exactRaw from to over scrollPos = from + (to - from) * scrollPos / over"

subsection \<open>The environment\<close>

text \<open>
  What the program uses and does not define: jQuery and the language's built-in
  functions. A jQuery object (a set of elements) is a value of the type \<open>'q\<close>.
  \<^item> \<open>body\<close> is \<^verbatim>\<open>$(document.body)\<close>;
  \<^item> \<open>find_in q selector\<close> is \<^verbatim>\<open>q.find(selector)\<close>, which throws an error for a string
    that is no selector;
  \<^item> \<open>css q property\<close> is the read \<^verbatim>\<open>q.css(property)\<close>: a string, or \<^verbatim>\<open>undefined\<close> (\<open>None\<close>);
  \<^item> \<open>parseFloat\<close> is the built-in function of that name, \<open>None\<close> for NaN;
  \<^item> \<open>numToString\<close> is the conversion of a number to a string, which \<^verbatim>\<open>+\<close> applies to a
    number added to a string.
\<close>

datatype error = TypeError | SelectorError

record 'q platform =
  body :: "'q"
  find_in :: "'q \<Rightarrow> string \<Rightarrow> error + 'q"
  css :: "'q \<Rightarrow> string \<Rightarrow> string option"
  parseFloat :: "string option \<Rightarrow> real option"
  numToString :: "real \<Rightarrow> string"

text \<open>\<^verbatim>\<open>$.inArray(x, xs)\<close>: the first index of \<open>x\<close> in \<open>xs\<close>, or \<open>-1\<close>.\<close>

fun inArray :: "'a \<Rightarrow> 'a list \<Rightarrow> int" where
  "inArray x [] = - 1"
| "inArray x (y # ys) =
     (if x = y then 0 else (let i = inArray x ys in if i = - 1 then - 1 else i + 1))"

subsection \<open>The data\<close>

text \<open>
  A tweening object \<^verbatim>\<open>{ from, to, over, unit }\<close>, each field a value of its type or
  absent (\<^verbatim>\<open>undefined\<close>, the outer \<open>None\<close>). The number given as \<open>over\<close> may be NaN (the
  inner \<open>None\<close>). The value given for a property in the animations is a tweening
  object (any value that has properties: one that lacks a field reads it as
  \<^verbatim>\<open>undefined\<close>) or is \<^verbatim>\<open>null\<close> or \<^verbatim>\<open>undefined\<close>, of which reading a property throws
  a \<^verbatim>\<open>TypeError\<close>.
\<close>

record tween =
  tween_from :: "real option"
  tween_to :: "real option"
  tween_over :: "real option option"
  tween_unit :: "string option"

datatype tween_value = Nullish | Tween tween

type_synonym properties_config = "(string \<times> tween_value) list"

type_synonym animations_config = "(string \<times> properties_config) list"

record options =
  options_over :: "real option option"
  options_animations :: "animations_config option"

text \<open>The object that \<^verbatim>\<open>initProperty\<close> returns.\<close>

record binding =
  fn :: "real \<Rightarrow> real option"
  isTransform :: bool
  unit :: string

text \<open>
  The object that \<^verbatim>\<open>initSelector\<close> returns (its field \<^verbatim>\<open>init\<close>, the constant
  \<^verbatim>\<open>true\<close> that nothing reads, is left out).
\<close>

record 'q selector =
  sel_element :: "'q"
  properties :: "(string \<times> binding) list"

text \<open>The fields of a \<^verbatim>\<open>ScrollBinder\<close> object; \<open>scrollEnd\<close> is a timer handle or \<^verbatim>\<open>null\<close>.\<close>

record 'q ScrollBinder =
  element :: "'q"
  scrollDistance :: real
  animations :: "(string \<times> 'q selector) list"
  scrollFlag :: bool
  scrollEnd :: "nat option"
  transforms :: "string list"

subsection \<open>Initialisation\<close>

text \<open>
  \<^verbatim>\<open>initProperty\<close>. Besides the object it returns, the model returns the properties it
  read with \<open>css\<close>, in the order of the reads. \<^verbatim>\<open>value.over || this.scrollDistance\<close> is
  the scroll distance when \<^verbatim>\<open>value.over\<close> is \<^verbatim>\<open>undefined\<close>, NaN or zero.
\<close>

definition initProperty ::
  "'q platform \<Rightarrow> ('q, 'z) ScrollBinder_scheme \<Rightarrow> string \<Rightarrow> tween_value \<Rightarrow> 'q \<Rightarrow>
   error + (binding \<times> string list)" where
  "initProperty P this property value el =
     (case value of
        Nullish \<Rightarrow> Inl TypeError
      | Tween v \<Rightarrow>
          (let isTransform' = (inArray property (transforms this) \<noteq> - 1);
               over = (case tween_over v of
                         None \<Rightarrow> scrollDistance this
                       | Some None \<Rightarrow> scrollDistance this
                       | Some (Some x) \<Rightarrow> if x = 0 then scrollDistance this else x);
               unit' = (case tween_unit v of
                          Some u \<Rightarrow> u
                        | None \<Rightarrow> if isTransform' then [] else ''px'');
               (from, reads1) =
                  (case tween_from v of
                     Some x \<Rightarrow> (x, [])
                   | None \<Rightarrow>
                       (case parseFloat P (css P el property) of
                          None \<Rightarrow> (0, [property])
                        | Some x \<Rightarrow> (x, [property])));
               (to, reads2) =
                  (case tween_to v of
                     Some x \<Rightarrow> (x, [])
                   | None \<Rightarrow>
                       (case parseFloat P (css P el property) of
                          None \<Rightarrow> (0, [property])
                        | Some x \<Rightarrow> (x, [property])))
           in Inr (\<lparr> fn = buildPropertyFunction from to over,
                      isTransform = (inArray property (transforms this) \<noteq> - 1),
                      unit = unit' \<rparr>,
                   reads1 @ reads2)))"

text \<open>
  The call \<^verbatim>\<open>obj.hasOwnProperty(key)\<close> on an object whose own properties are the pairs of
  \<open>obj\<close>, none of them a function: the method the object inherits, unless the object has
  an own property named \<^verbatim>\<open>hasOwnProperty\<close>, whose value cannot be called (a
  \<^verbatim>\<open>TypeError\<close>).
\<close>

definition hasOwnProperty :: "(string \<times> 'v) list \<Rightarrow> string \<Rightarrow> error + bool" where
  "hasOwnProperty obj key =
     (if ''hasOwnProperty'' \<in> set (map fst obj) then Inl TypeError
      else Inr (key \<in> set (map fst obj)))"

text \<open>
  The loop of \<^verbatim>\<open>initSelector\<close> over the properties of the object \<open>props\<close>, of which
  those of the fourth argument are still to be visited; an assignment
  \<^verbatim>\<open>init.properties[property] = ...\<close> replaces the value of a key that is there and adds a
  new key last. An exception leaves the loop.
\<close>

fun initProperties ::
  "'q platform \<Rightarrow> ('q, 'z) ScrollBinder_scheme \<Rightarrow> 'q \<Rightarrow> properties_config \<Rightarrow>
   properties_config \<Rightarrow> (string \<times> binding) list \<Rightarrow> error + (string \<times> binding) list" where
  "initProperties P this el props [] acc = Inr acc"
| "initProperties P this el props ((property, value) # rest) acc =
     (case hasOwnProperty props property of
        Inl e \<Rightarrow> Inl e
      | Inr own \<Rightarrow>
          if own
          then (case initProperty P this property value el of
                  Inl e \<Rightarrow> Inl e
                | Inr (b, reads) \<Rightarrow>
                    initProperties P this el props rest (AList.update property b acc))
          else initProperties P this el props rest acc)"

definition initSelector ::
  "'q platform \<Rightarrow> ('q, 'z) ScrollBinder_scheme \<Rightarrow> string \<Rightarrow> properties_config \<Rightarrow>
   error + 'q selector" where
  "initSelector P this selector' props =
     (case (if selector' = ''this'' then Inr (element this)
            else find_in P (element this) selector') of
        Inl e \<Rightarrow> Inl e
      | Inr el \<Rightarrow>
          (case initProperties P this el props props [] of
             Inl e \<Rightarrow> Inl e
           | Inr ps \<Rightarrow> Inr \<lparr> sel_element = el, properties = ps \<rparr>))"

text \<open>
  The loop of \<^verbatim>\<open>initAnimations\<close> over the selectors of the object \<open>config\<close>, of which
  those of the fourth argument are still to be visited.
\<close>

fun initSelectors ::
  "'q platform \<Rightarrow> ('q, 'z) ScrollBinder_scheme \<Rightarrow> animations_config \<Rightarrow>
   animations_config \<Rightarrow> (string \<times> 'q selector) list \<Rightarrow>
   error + (string \<times> 'q selector) list" where
  "initSelectors P this config [] acc = Inr acc"
| "initSelectors P this config ((selector', props) # rest) acc =
     (case hasOwnProperty config selector' of
        Inl e \<Rightarrow> Inl e
      | Inr own \<Rightarrow>
          if own
          then (case initSelector P this selector' props of
                  Inl e \<Rightarrow> Inl e
                | Inr s \<Rightarrow> initSelectors P this config rest (AList.update selector' s acc))
          else initSelectors P this config rest acc)"

text \<open>
  \<^verbatim>\<open>initAnimations\<close> initialises the animations the user gave and stores the result in
  the object.
\<close>

definition initAnimations ::
  "'q platform \<Rightarrow> animations_config \<Rightarrow> 'q ScrollBinder \<Rightarrow> error + 'q ScrollBinder" where
  "initAnimations P config this =
     (case initSelectors P this config config [] of
        Inl e \<Rightarrow> Inl e
      | Inr as \<Rightarrow> Inr (this\<lparr> animations := as \<rparr>))"

text \<open>
  The constructor, up to the call of \<^verbatim>\<open>bind\<close>. \<^verbatim>\<open>options.over || 70\<close> is 70 when
  \<^verbatim>\<open>options.over\<close> is \<^verbatim>\<open>undefined\<close>, NaN or zero.
\<close>

definition new_ScrollBinder ::
  "'q platform \<Rightarrow> 'q option \<Rightarrow> options option \<Rightarrow> error + 'q ScrollBinder" where
  "new_ScrollBinder P el opts =
     (let opts' = (case opts of
                     None \<Rightarrow> \<lparr> options_over = None, options_animations = None \<rparr>
                   | Some x \<Rightarrow> x);
          this = \<lparr> element = (case el of None \<Rightarrow> body P | Some e \<Rightarrow> e),
                   scrollDistance = (case options_over opts' of
                                       None \<Rightarrow> 70
                                     | Some None \<Rightarrow> 70
                                     | Some (Some x) \<Rightarrow> if x = 0 then 70 else x),
                   animations = [],
                   scrollFlag = True,
                   scrollEnd = None,
                   transforms = [''scale'', ''scaleX'', ''scaleY'', ''rotate'', ''rotateX'',
                                 ''rotateY'', ''rotateZ'', ''translateX'', ''translateY''] \<rparr>
      in initAnimations P (case options_animations opts' of None \<Rightarrow> [] | Some a \<Rightarrow> a) this)"


subsection \<open>The frame callback of \<^verbatim>\<open>animate\<close>\<close>

text \<open>
  The calls of jQuery's \<^verbatim>\<open>css\<close> that write: \<^verbatim>\<open>q.css(property, value)\<close> and
  \<^verbatim>\<open>q.css({ property: value, ... })\<close>.
\<close>

datatype 'q css_call =
  CssSet 'q string string
| CssSetMap 'q "(string \<times> string) list"

text \<open>\<^verbatim>\<open>value.fn(scrollPos) + value.unit\<close>; NaN converts to the string \<^verbatim>\<open>NaN\<close>.\<close>

definition valueString :: "'q platform \<Rightarrow> binding \<Rightarrow> real \<Rightarrow> string" where
  "valueString P value scrollPos =
     (case fn value scrollPos of None \<Rightarrow> ''NaN'' | Some v \<Rightarrow> numToString P v) @ unit value"

text \<open>
  The loop over the properties of one selector, on the pair of \<^verbatim>\<open>transformStack\<close> and
  the calls made so far. The loops of the callback guard their bodies with
  \<^verbatim>\<open>hasOwnProperty\<close>, called on the object they enumerate, as the loops of the
  initialisation do. The objects they enumerate are those the initialisation built, and
  \<^verbatim>\<open>transformStack\<close>, whose keys are keys of these; none of them has an own property
  named \<^verbatim>\<open>hasOwnProperty\<close> (\<open>exports_init_no_hasOwnProperty\<close>), so the guards are true and
  are left out.
\<close>

fun animateProperties ::
  "'q platform \<Rightarrow> real \<Rightarrow> 'q \<Rightarrow> (string \<times> binding) list \<Rightarrow>
   (string \<times> string) list \<times> 'q css_call list \<Rightarrow> (string \<times> string) list \<times> 'q css_call list" where
  "animateProperties P scrollPos el [] (transformStack, calls) = (transformStack, calls)"
| "animateProperties P scrollPos el ((property, value) # rest) (transformStack, calls) =
     (if isTransform value
      then animateProperties P scrollPos el rest
             (AList.update property (valueString P value scrollPos) transformStack, calls)
      else animateProperties P scrollPos el rest
             (transformStack, calls @ [CssSet el property (valueString P value scrollPos)]))"

text \<open>The loop over \<^verbatim>\<open>transformStack\<close> that builds \<^verbatim>\<open>transformString\<close>.\<close>

fun buildTransformString :: "(string \<times> string) list \<Rightarrow> string \<Rightarrow> string" where
  "buildTransformString [] transformString = transformString"
| "buildTransformString ((transformProperty, v) # rest) transformString =
     buildTransformString rest (transformString @ transformProperty @ ''('' @ v @ '') '')"

text \<open>The body of the loop over the selectors: the calls made for one selector.\<close>

definition animateSelector :: "'q platform \<Rightarrow> real \<Rightarrow> 'q selector \<Rightarrow> 'q css_call list" where
  "animateSelector P scrollPos animation =
     (let (transformStack, calls) =
            animateProperties P scrollPos (sel_element animation) (properties animation) ([], [])
      in if transformStack \<noteq> []
         then (let transformString = buildTransformString transformStack []
               in calls @ [CssSetMap (sel_element animation)
                             [(''-webkit-transform'', transformString),
                              (''-ms-transform'', transformString),
                              (''transform'', transformString)]])
         else calls)"

text \<open>
  The function that \<^verbatim>\<open>animate\<close> passes to \<^verbatim>\<open>requestFrame\<close>: the calls it makes, for the
  animations of the object and the scroll position it closes over.
\<close>

fun frameCallback ::
  "'q platform \<Rightarrow> real \<Rightarrow> (string \<times> 'q selector) list \<Rightarrow> 'q css_call list" where
  "frameCallback P scrollPos [] = []"
| "frameCallback P scrollPos ((selector', animation) # rest) =
     animateSelector P scrollPos animation @ frameCallback P scrollPos rest"

subsection \<open>The object in its window: timers, frames, scroll events\<close>

text \<open>
  The two functions the program passes to \<^verbatim>\<open>setTimeout\<close>: the one that sets
  \<^verbatim>\<open>scrollFlag\<close>, and the one that calls \<^verbatim>\<open>onScroll(e, true)\<close>.
\<close>

datatype callback = SetScrollFlag | ScrollEndCall

text \<open>
  The state is the object together with what the program reads and writes of its
  window and of the module:
  \<^item> \<open>module_instance\<close>: \<^verbatim>\<open>module.instance\<close> is the object (and not \<^verbatim>\<open>null\<close>);
  \<^item> \<open>listening\<close>: the handler of the scroll event is bound;
  \<^item> \<open>now\<close>: the time, in milliseconds; \<open>scrollTop\<close>: \<^verbatim>\<open>$(window).scrollTop()\<close>;
  \<^item> \<open>timers\<close>: the pending timeouts, each with its handle and the time it is due, in
    the order of their registration; \<open>nextHandle\<close>: the handle of the next one;
  \<^item> \<open>frames\<close>: the scroll positions of the frame callbacks requested and not yet run
    (\<^verbatim>\<open>requestAnimationFrame\<close> is taken to exist);
  \<^item> \<open>animated\<close>: a record of the calls of \<^verbatim>\<open>animate\<close>, the time and the argument of each;
  \<^item> \<open>writes\<close>: a record of the calls of \<^verbatim>\<open>css\<close> that wrote.
  The timers and the frame callbacks refer to the object itself, so they outlive
  \<^verbatim>\<open>module.instance\<close>. One state describes one object: a second object made by
  \<^verbatim>\<open>exports.init\<close> after a \<^verbatim>\<open>destroy\<close> is not described.
\<close>

record 'q world = "'q ScrollBinder" +
  module_instance :: bool
  listening :: bool
  now :: nat
  scrollTop :: real
  timers :: "(nat \<times> nat \<times> callback) list"
  nextHandle :: nat
  frames :: "real list"
  animated :: "(nat \<times> real) list"
  writes :: "'q css_call list"

definition setTimeout :: "callback \<Rightarrow> nat \<Rightarrow> 'q world \<Rightarrow> nat \<times> 'q world" where
  "setTimeout cb delay w =
     (nextHandle w,
      w\<lparr> timers := timers w @ [(nextHandle w, now w + delay, cb)],
         nextHandle := Suc (nextHandle w) \<rparr>)"

text \<open>
  The pending timeouts without the one of a handle; \<^verbatim>\<open>null\<close> is the handle of none.
\<close>

fun without :: "nat option \<Rightarrow> (nat \<times> nat \<times> callback) list \<Rightarrow> (nat \<times> nat \<times> callback) list" where
  "without None ts = ts"
| "without (Some h) ts = filter (\<lambda>(h', due, cb). h' \<noteq> h) ts"

definition clearTimeout :: "nat option \<Rightarrow> 'q world \<Rightarrow> 'q world" where
  "clearTimeout handle w = w\<lparr> timers := without handle (timers w) \<rparr>"

text \<open>\<^verbatim>\<open>animate\<close> requests one frame callback, which closes over the scroll position.\<close>

definition animate :: "real \<Rightarrow> 'q world \<Rightarrow> 'q world" where
  "animate scrollPos w =
     w\<lparr> frames := frames w @ [scrollPos],
        animated := animated w @ [(now w, scrollPos)] \<rparr>"

definition onScroll :: "bool \<Rightarrow> 'q world \<Rightarrow> 'q world" where
  "onScroll fromScrollEnd w =
     (let scrollTop' = scrollTop w
      in if scrollFlag w = False then w
         else (let w1 = clearTimeout (scrollEnd w) w;
                   w2 = w1\<lparr> scrollFlag := False \<rparr>;
                   w3 = animate scrollTop' w2;
                   (h1, w4) = setTimeout SetScrollFlag 16 w3
               in if \<not> fromScrollEnd
                  then (let (h2, w5) = setTimeout ScrollEndCall 64 w4
                        in w5\<lparr> scrollEnd := Some h2 \<rparr>)
                  else w4))"

text \<open>\<^verbatim>\<open>reset\<close>, \<^verbatim>\<open>unbind\<close> and the module's \<^verbatim>\<open>destroy\<close>.\<close>

definition reset :: "'q world \<Rightarrow> 'q world" where
  "reset w = w"

definition unbind :: "'q world \<Rightarrow> 'q world" where
  "unbind w = w\<lparr> listening := False \<rparr>"

definition exports_destroy :: "'q world \<Rightarrow> 'q world" where
  "exports_destroy w =
     (if \<not> module_instance w then w
      else (unbind (reset w))\<lparr> module_instance := False \<rparr>)"

text \<open>
  The module's \<^verbatim>\<open>init\<close>, called when \<^verbatim>\<open>module.instance\<close> is \<^verbatim>\<open>null\<close>: the constructor
  makes the object and binds the handler of the scroll event. The window is at time 0
  and not scrolled, and no timeout is pending. An exception of the constructor leaves
  \<^verbatim>\<open>init\<close>.
\<close>

definition exports_init :: "'q platform \<Rightarrow> 'q option \<Rightarrow> options option \<Rightarrow> error + 'q world" where
  "exports_init P el opts =
     (case new_ScrollBinder P el opts of
        Inl e \<Rightarrow> Inl e
      | Inr this \<Rightarrow>
          Inr \<lparr> element = element this,
                scrollDistance = scrollDistance this,
                animations = animations this,
                scrollFlag = scrollFlag this,
                scrollEnd = scrollEnd this,
                transforms = transforms this,
                module_instance = True,
                listening = True,
                now = 0,
                scrollTop = 0,
                timers = [],
                nextHandle = 1,
                frames = [],
                animated = [],
                writes = [] \<rparr>)"

subsection \<open>Runs\<close>

text \<open>
  The timeout that runs next: the one that is due first, and of those due at the same
  time the one registered first.
\<close>

fun next_due :: "(nat \<times> nat \<times> callback) list \<Rightarrow> (nat \<times> nat \<times> callback) option" where
  "next_due [] = None"
| "next_due ((h, due, cb) # rest) =
     (case next_due rest of
        None \<Rightarrow> Some (h, due, cb)
      | Some (h', due', cb') \<Rightarrow> if due \<le> due' then Some (h, due, cb) else Some (h', due', cb'))"

text \<open>
  The run of a timeout: it is no longer pending, the time is the time it was due (or
  later), and its function is called.
\<close>

definition fire :: "nat \<times> nat \<times> callback \<Rightarrow> 'q world \<Rightarrow> 'q world" where
  "fire tm w =
     (case tm of (h, due, cb) \<Rightarrow>
        (let w1 = w\<lparr> timers := without (Some h) (timers w),
                      now := max (now w) due \<rparr>
         in case cb of
              SetScrollFlag \<Rightarrow> w1\<lparr> scrollFlag := True \<rparr>
            | ScrollEndCall \<Rightarrow> onScroll True w1))"

text \<open>
  What happens to the object, one step at a time:
  \<^item> \<open>Scroll t y\<close>: at the time \<open>t\<close> the window is scrolled to \<open>y\<close> and the scroll event is
    dispatched, to \<^verbatim>\<open>onScroll\<close> if the handler is bound. It cannot happen before the
    present time, nor after the time a pending timeout is due (that timeout runs first);
  \<^item> \<open>Timer\<close>: the timeout that is next runs. It cannot happen when none is pending;
  \<^item> \<open>Frame\<close>: the frame callback requested first runs. It cannot happen when none is
    requested;
  \<^item> \<open>Destroy\<close>: the module's \<^verbatim>\<open>destroy\<close> is called.
  A step that cannot happen has no result (\<open>None\<close>).
\<close>

datatype step = Scroll nat real | Timer | Frame | Destroy

definition do_step :: "'q platform \<Rightarrow> step \<Rightarrow> 'q world \<Rightarrow> 'q world option" where
  "do_step P s w =
     (case s of
        Scroll t y \<Rightarrow>
          (if now w \<le> t \<and> list_all (\<lambda>(h, due, cb). t \<le> due) (timers w)
           then (let w1 = w\<lparr> now := t, scrollTop := y \<rparr>
                 in Some (if listening w1 then onScroll False w1 else w1))
           else None)
      | Timer \<Rightarrow>
          (case next_due (timers w) of
             None \<Rightarrow> None
           | Some tm \<Rightarrow> Some (fire tm w))
      | Frame \<Rightarrow>
          (case frames w of
             [] \<Rightarrow> None
           | scrollPos # rest \<Rightarrow>
               Some (w\<lparr> frames := rest,
                        writes := writes w @ frameCallback P scrollPos (animations w) \<rparr>))
      | Destroy \<Rightarrow> Some (exports_destroy w))"

fun run :: "'q platform \<Rightarrow> step list \<Rightarrow> 'q world \<Rightarrow> 'q world option" where
  "run P [] w = Some w"
| "run P (s # rest) w =
     (case do_step P s w of
        None \<Rightarrow> None
      | Some w' \<Rightarrow> run P rest w')"

subsection \<open>A \<^verbatim>\<open>parseFloat\<close> for decimal literals\<close>

text \<open>
  The built-in \<^verbatim>\<open>parseFloat\<close> on the strings whose longest prefix that is a decimal
  literal (after ASCII white space: a sign, digits, a fraction, an exponent, as the grammar
  of \<^verbatim>\<open>StrDecimalLiteral\<close> has them) denotes a real number, which is rounded to
  binary64, and on the strings that have no such prefix, for which it is NaN; so is it
  for \<^verbatim>\<open>undefined\<close>. The literal \<^verbatim>\<open>Infinity\<close>, which the grammar has too, and the
  literals whose value rounds to an infinity are not covered: the built-in function
  returns an infinity for them, which no value of the result type stands for.
\<close>

definition is_space :: "char \<Rightarrow> bool" where
  "is_space c = (c \<in> set [CHR '' '', CHR 0x09, CHR 0x0A, CHR 0x0B, CHR 0x0C, CHR 0x0D])"

definition is_digit :: "char \<Rightarrow> bool" where
  "is_digit c = (c \<in> set ''0123456789'')"

fun digits_value :: "string \<Rightarrow> nat \<Rightarrow> nat" where
  "digits_value [] n = n"
| "digits_value (c # cs) n = digits_value cs (10 * n + (of_char c - 48))"

definition split_sign :: "string \<Rightarrow> bool \<times> string" where
  "split_sign s =
     (case s of
        [] \<Rightarrow> (False, [])
      | c # rest \<Rightarrow>
          if c = CHR ''-'' then (True, rest)
          else if c = CHR ''+'' then (False, rest)
          else (False, s))"

definition exponent_part :: "string \<Rightarrow> int" where
  "exponent_part s =
     (case s of
        [] \<Rightarrow> 0
      | c # rest \<Rightarrow>
          if c = CHR ''e'' \<or> c = CHR ''E''
          then (case split_sign rest of (neg, rest') \<Rightarrow>
                  (let ds = takeWhile is_digit rest'
                   in if ds = [] then 0
                      else if neg then - int (digits_value ds 0) else int (digits_value ds 0)))
          else 0)"

definition parseFloat_decimal :: "string option \<Rightarrow> real option" where
  "parseFloat_decimal arg =
     (case arg of
        None \<Rightarrow> None
      | Some s \<Rightarrow>
          (case split_sign (dropWhile is_space s) of (neg, s2) \<Rightarrow>
             (let ip = takeWhile is_digit s2;
                  s3 = dropWhile is_digit s2;
                  fp = (case s3 of
                          [] \<Rightarrow> []
                        | c # rest \<Rightarrow> if c = CHR ''.'' then takeWhile is_digit rest else []);
                  s4 = (case s3 of
                          [] \<Rightarrow> []
                        | c # rest \<Rightarrow> if c = CHR ''.'' then dropWhile is_digit rest else s3);
                  ex = exponent_part s4;
                  m = real (digits_value (ip @ fp) 0) / 10 ^ length fp;
                  v = (if 0 \<le> ex then m * 10 ^ nat ex else m / 10 ^ nat (- ex))
              in if ip = [] \<and> fp = [] then None
                 else number_of (round64 (if neg then - v else v)))))"


subsection \<open>An example\<close>

text \<open>
  A conversion of numbers to strings for the binary64 numbers nearest to a whole number
  of hundredths, as the values that \<^verbatim>\<open>buildPropertyFunction\<close> rounds are, that are written
  without an exponent: the digits before the point, and the one or two digits after
  it that are not trailing zeros.
\<close>

fun natString :: "nat \<Rightarrow> string" where
  "natString n =
     (if n < 10 then [''0123456789'' ! n]
      else natString (n div 10) @ [''0123456789'' ! (n mod 10)])"

definition decimalString :: "real \<Rightarrow> string" where
  "decimalString x =
     (let n = nat \<lfloor>\<bar>x\<bar> * 100 + 1 / 2\<rfloor>;
          f1 = (n mod 100) div 10;
          f2 = n mod 10
      in (if x < 0 \<and> n \<noteq> 0 then ''-'' else []) @ natString (n div 100) @
         (if f1 = 0 \<and> f2 = 0 then []
          else ''.'' @ natString f1 @ (if f2 = 0 then [] else natString f2)))"

text \<open>
  An environment in which a jQuery object is written as the selector that finds it, and
  every property of every element has the computed value \<^verbatim>\<open>10px\<close>.
\<close>

definition demo_platform :: "string platform" where
  "demo_platform =
     \<lparr> body = ''body'',
       find_in = (\<lambda>q selector'. Inr (q @ '' '' @ selector')),
       css = (\<lambda>q property. Some ''10px''),
       parseFloat = parseFloat_decimal,
       numToString = decimalString \<rparr>"

text \<open>
  The options
  \<^verbatim>\<open>{ over: 200, animations: { 'this': { 'padding-top': { to: 20 } },
     '.logo': { 'rotate': { from: 0, to: 90, unit: 'deg' }, 'opacity': { from: 1, to: 0, unit: '' },
                'scale': { from: 1, to: 0.5 } } } }\<close>.
\<close>

definition demo_options :: options where
  "demo_options =
     \<lparr> options_over = Some (Some 200),
       options_animations = Some
         [(''this'',
           [(''padding-top'',
             Tween \<lparr> tween_from = None, tween_to = Some 20,
                     tween_over = None, tween_unit = None \<rparr>)]),
          (''.logo'',
           [(''rotate'',
             Tween \<lparr> tween_from = Some 0, tween_to = Some 90,
                     tween_over = None, tween_unit = Some ''deg'' \<rparr>),
            (''opacity'',
             Tween \<lparr> tween_from = Some 1, tween_to = Some 0,
                     tween_over = None, tween_unit = Some [] \<rparr>),
            (''scale'',
             Tween \<lparr> tween_from = Some 1, tween_to = Some (1 / 2),
                     tween_over = None, tween_unit = None \<rparr>)])] \<rparr>"

text \<open>The object and its window that \<^verbatim>\<open>init\<close> makes of these options, written out.\<close>

definition demo_world :: "string world" where
  "demo_world =
     \<lparr> element = ''body'',
       scrollDistance = 200,
       animations =
         [(''this'',
           \<lparr> sel_element = ''body'',
             properties =
               [(''padding-top'',
                 \<lparr> fn = buildPropertyFunction 10 20 200, isTransform = False, unit = ''px'' \<rparr>)] \<rparr>),
          (''.logo'',
           \<lparr> sel_element = ''body .logo'',
             properties =
               [(''rotate'',
                 \<lparr> fn = buildPropertyFunction 0 90 200, isTransform = True, unit = ''deg'' \<rparr>),
                (''opacity'',
                 \<lparr> fn = buildPropertyFunction 1 0 200, isTransform = False, unit = [] \<rparr>),
                (''scale'',
                 \<lparr> fn = buildPropertyFunction 1 (1 / 2) 200, isTransform = True, unit = [] \<rparr>)] \<rparr>)],
       scrollFlag = True,
       scrollEnd = None,
       transforms = [''scale'', ''scaleX'', ''scaleY'', ''rotate'', ''rotateX'',
                     ''rotateY'', ''rotateZ'', ''translateX'', ''translateY''],
       module_instance = True,
       listening = True,
       now = 0,
       scrollTop = 0,
       timers = [],
       nextHandle = 1,
       frames = [],
       animated = [],
       writes = [] \<rparr>"


subsection \<open>Notions of the statements and of the proofs\<close>

text \<open>
  The composite transform string as the specification words it: for the transform
  properties of a selector, in the order of their declaration, \<^verbatim>\<open>property(value) \<close>
  with the value followed by its unit, one after the other.
\<close>

definition compositeString :: "'q platform \<Rightarrow> real \<Rightarrow> (string \<times> binding) list \<Rightarrow> string" where
  "compositeString P scrollPos props =
     concat (map (\<lambda>(property, value). property @ ''('' @ valueString P value scrollPos @ '') '')
                 (filter (\<lambda>(property, value). isTransform value) props))"

text \<open>
  The writes the specification expects for one selector: one write for each property
  that is no transform, in the order of declaration, and then, if the selector has a
  transform property, a single write of the composite string to the transform style and
  its two prefixed forms.
\<close>

definition expectedCalls :: "'q platform \<Rightarrow> real \<Rightarrow> 'q selector \<Rightarrow> 'q css_call list" where
  "expectedCalls P scrollPos animation =
     map (\<lambda>(property, value).
            CssSet (sel_element animation) property (valueString P value scrollPos))
         (filter (\<lambda>(property, value). \<not> isTransform value) (properties animation)) @
     (if filter (\<lambda>(property, value). isTransform value) (properties animation) = [] then []
      else [CssSetMap (sel_element animation)
              [(''-webkit-transform'', compositeString P scrollPos (properties animation)),
               (''-ms-transform'', compositeString P scrollPos (properties animation)),
               (''transform'', compositeString P scrollPos (properties animation))]])"

text \<open>
  The invariant of the throttle: while \<open>scrollFlag\<close> is set no timeout that sets it is
  pending; the pending timeouts that set it have one handle; a pending timeout that
  calls \<^verbatim>\<open>onScroll\<close> has the handle stored in \<open>scrollEnd\<close>; while \<open>scrollFlag\<close> is not set,
  a timeout that sets it is due before any pending timeout that calls \<^verbatim>\<open>onScroll\<close>; and
  no pending timeout is due before the present time.
\<close>

definition throttle_inv :: "'q world \<Rightarrow> bool" where
  "throttle_inv w \<longleftrightarrow>
     (scrollFlag w \<longrightarrow> (\<forall>h d. (h, d, SetScrollFlag) \<notin> set (timers w))) \<and>
     (\<forall>h d h' d'. (h, d, SetScrollFlag) \<in> set (timers w) \<longrightarrow>
                  (h', d', SetScrollFlag) \<in> set (timers w) \<longrightarrow> h = h') \<and>
     (\<forall>h d. (h, d, ScrollEndCall) \<in> set (timers w) \<longrightarrow> scrollEnd w = Some h) \<and>
     (\<not> scrollFlag w \<longrightarrow>
        (\<forall>h d. (h, d, ScrollEndCall) \<in> set (timers w) \<longrightarrow>
               (\<exists>h' d'. (h', d', SetScrollFlag) \<in> set (timers w) \<and> d' < d))) \<and>
     (\<forall>h d c. (h, d, c) \<in> set (timers w) \<longrightarrow> now w \<le> d)"


text \<open>
  The order of the numbers that are not NaN, the infinities below and above the finite
  ones.
\<close>

fun js_le :: "float64 \<Rightarrow> float64 \<Rightarrow> bool" where
  "js_le NaN y = False"
| "js_le x NaN = False"
| "js_le NegInfinity y = True"
| "js_le x PosInfinity = True"
| "js_le PosInfinity y = False"
| "js_le x NegInfinity = False"
| "js_le (Finite x) (Finite y) = (x \<le> y)"

text \<open>The exponent at which \<open>round_magnitude\<close> rounds.\<close>

definition expo :: "real \<Rightarrow> int" where
  "expo a = max (floor_log2 a) (- 1022)"

text \<open>
  What the function that \<^verbatim>\<open>buildPropertyFunction\<close> returns does with the product
  \<^verbatim>\<open>(to - from) * scrollPos\<close>.
\<close>

definition afterProduct :: "real \<Rightarrow> real \<Rightarrow> real \<Rightarrow> float64 \<Rightarrow> float64" where
  "afterProduct from to over b =
     forceBetween from to
       (js_div (Math_round (js_mul (js_add (Finite from) (js_div b (Finite over))) (Finite 100)))
          (Finite 100))"

text \<open>The options with every \<open>over\<close> taken out, that of the options and those of the tweens.\<close>

fun tween_without_over :: "tween_value \<Rightarrow> tween_value" where
  "tween_without_over Nullish = Nullish"
| "tween_without_over (Tween v) = Tween (v\<lparr> tween_over := None \<rparr>)"



section \<open>Properties of binary64 rounding\<close>

lemma rne_bounds: "of_int (rne x) \<le> x + 1 / 2" "x - 1 / 2 \<le> of_int (rne x)"
  unfolding rne_def Let_def by (auto; linarith)+

lemma rne_of_int [simp]: "rne (of_int n) = n"
  by (simp add: rne_def)

lemma rne_mono: "x \<le> y \<Longrightarrow> rne x \<le> rne y"
proof -
  assume xy: "x \<le> y"
  have fl: "\<lfloor>x\<rfloor> \<le> \<lfloor>y\<rfloor>" using xy by (rule floor_mono)
  show ?thesis
  proof (cases "\<lfloor>x\<rfloor> = \<lfloor>y\<rfloor>")
    case True
    then show ?thesis using xy unfolding rne_def Let_def by auto
  next
    case False
    with fl have lt: "\<lfloor>x\<rfloor> + 1 \<le> \<lfloor>y\<rfloor>" by simp
    have "rne x \<le> \<lfloor>x\<rfloor> + 1" unfolding rne_def Let_def by auto
    moreover have "\<lfloor>y\<rfloor> \<le> rne y" unfolding rne_def Let_def by auto
    ultimately show ?thesis using lt by linarith
  qed
qed

lemma rne_nonneg: "0 \<le> x \<Longrightarrow> 0 \<le> rne x"
  using rne_mono[of 0 x] rne_of_int[of 0] by simp

lemma floor_log2_bounds:
  assumes "0 < a"
  shows "2 powi (floor_log2 a) \<le> a" "a < 2 powi (floor_log2 a + 1)"
proof -
  have "2 powi (floor_log2 a) \<le> a \<and> a < 2 powi (floor_log2 a + 1)"
  proof (cases "1 \<le> a")
    case True
    define n where "n = \<lfloor>a\<rfloor>"
    have n: "0 < n" using True by (simp add: n_def)
    from bitlen_bounds[OF n] have b: "2 ^ nat (bitlen n - 1) \<le> n" "n < 2 ^ nat (bitlen n)" by auto
    have ge1: "1 \<le> bitlen n" using n by (auto simp: bitlen_alt_def)
    have e: "floor_log2 a = bitlen n - 1" using True by (simp add: floor_log2_def n_def)
    have p1: "(2::real) powi (bitlen n - 1) = 2 ^ nat (bitlen n - 1)"
      using ge1 by (simp add: power_int_def)
    have p2: "(2::real) powi (bitlen n) = 2 ^ nat (bitlen n)"
      using ge1 by (simp add: power_int_def)
    have r1: "(2::real) ^ nat (bitlen n - 1) \<le> of_int n"
      using b(1) by (simp only: numeral_power_le_of_int_cancel_iff)
    have "of_int n \<le> a" by (simp add: n_def)
    with r1 have "2 ^ nat (bitlen n - 1) \<le> a" by linarith
    then have lo: "2 powi (floor_log2 a) \<le> a" by (simp only: e p1)
    have "n + 1 \<le> 2 ^ nat (bitlen n)" using b(2) by simp
    then have r2: "(of_int (n + 1) :: real) \<le> 2 ^ nat (bitlen n)"
      by (simp only: of_int_le_numeral_power_cancel_iff)
    have "a < of_int (n + 1)" by (simp add: n_def)
    with r2 have "a < 2 ^ nat (bitlen n)" by linarith
    then have "a < 2 powi (floor_log2 a + 1)" by (simp only: e p2 diff_add_cancel)
    with lo show ?thesis by simp
  next
    case False
    then have a1: "a < 1" by simp
    define N where "N = \<lceil>1 / a\<rceil>"
    have y: "1 < 1 / a" using assms a1 by simp
    then have N2: "2 \<le> N" unfolding N_def by (simp add: le_ceiling_iff)
    define j where "j = bitlen (N - 1)"
    have N1: "0 < N - 1" using N2 by simp
    from bitlen_bounds[OF N1] have b: "2 ^ nat (j - 1) \<le> N - 1" "N - 1 < 2 ^ nat j"
      by (auto simp: j_def)
    have j1: "1 \<le> j" using N1 by (auto simp: bitlen_alt_def j_def)
    have e: "floor_log2 a = - j" using False by (simp add: floor_log2_def N_def j_def)
    have "N \<le> 2 ^ nat j" using b(2) by simp
    then have r1: "(of_int N :: real) \<le> 2 ^ nat j"
      by (simp only: of_int_le_numeral_power_cancel_iff)
    have "1 / a \<le> of_int N" by (simp add: N_def)
    with r1 have "1 / a \<le> 2 ^ nat j" by linarith
    then have "1 \<le> 2 ^ nat j * a" using assms by (simp add: field_simps)
    then have "1 / 2 ^ nat j \<le> a" by (simp add: field_simps)
    moreover have "(2::real) powi (- j) = 1 / 2 ^ nat j"
      using j1 by (simp add: power_int_def field_simps)
    ultimately have lo: "2 powi (floor_log2 a) \<le> a" by (simp add: e)
    have r2: "(2::real) ^ nat (j - 1) \<le> of_int (N - 1)"
      using b(1) by (simp only: numeral_power_le_of_int_cancel_iff)
    have "of_int (N - 1) < 1 / a" unfolding N_def by linarith
    with r2 have "2 ^ nat (j - 1) < 1 / a" by linarith
    then have "2 ^ nat (j - 1) * a < 1" using assms by (simp add: field_simps)
    then have "a < 1 / 2 ^ nat (j - 1)" by (simp add: field_simps)
    moreover have "(2::real) powi (- j + 1) = 1 / 2 ^ nat (j - 1)"
    proof -
      have "- j + 1 = - (j - 1)" by simp
      then have "(2::real) powi (- j + 1) = 1 / 2 powi (j - 1)"
        by (simp only: power_int_minus_divide)
      also have "(2::real) powi (j - 1) = 2 ^ nat (j - 1)"
        using j1 by (simp add: power_int_nonneg_exp)
      finally show ?thesis .
    qed
    ultimately have "a < 2 powi (floor_log2 a + 1)" by (simp add: e)
    with lo show ?thesis by simp
  qed
  then show "2 powi (floor_log2 a) \<le> a" "a < 2 powi (floor_log2 a + 1)" by simp_all
qed


lemma round_magnitude_expo:
  "round_magnitude a = of_int (rne (a / 2 powi (expo a - 52))) * 2 powi (expo a - 52)"
  by (simp add: round_magnitude_def expo_def Let_def)

lemma pow2_pos [simp]: "0 < (2::real) powi k"
  by (simp add: zero_less_power_int)

lemma pow2_mono: "m \<le> n \<Longrightarrow> (2::real) powi m \<le> 2 powi n"
  by (rule power_int_increasing) simp_all

lemma pow2_less_imp: "(2::real) powi m < 2 powi n \<Longrightarrow> m < n"
proof (rule ccontr)
  assume a: "(2::real) powi m < 2 powi n" and "\<not> m < n"
  then have "n \<le> m" by simp
  from pow2_mono[OF this] a show False by simp
qed

lemma pow2_split: "(2::real) powi (e + 1) = 2 ^ 53 * 2 powi (e - 52)"
proof -
  have "e + 1 = 53 + (e - 52)" by simp
  then have "(2::real) powi (e + 1) = 2 powi (53 + (e - 52))" by (rule arg_cong)
  also have "\<dots> = 2 powi 53 * 2 powi (e - 52)" by (rule power_int_add) simp
  finally show ?thesis by simp
qed

lemma pow2_split': "(2::real) powi e = 2 ^ 52 * 2 powi (e - 52)"
proof -
  have "e = 52 + (e - 52)" by simp
  then have "(2::real) powi e = 2 powi (52 + (e - 52))" by (rule arg_cong)
  also have "\<dots> = 2 powi 52 * 2 powi (e - 52)" by (rule power_int_add) simp
  finally show ?thesis by simp
qed

lemma floor_log2_mono: "0 < a \<Longrightarrow> a \<le> b \<Longrightarrow> floor_log2 a \<le> floor_log2 b"
proof -
  assume a: "0 < a" and ab: "a \<le> b"
  then have b: "0 < b" by simp
  from floor_log2_bounds(1)[OF a] floor_log2_bounds(2)[OF b] ab
  have "(2::real) powi (floor_log2 a) < 2 powi (floor_log2 b + 1)" by linarith
  from pow2_less_imp[OF this] show ?thesis by simp
qed

lemma expo_mono: "0 < a \<Longrightarrow> a \<le> b \<Longrightarrow> expo a \<le> expo b"
  using floor_log2_mono[of a b] by (simp add: expo_def)

lemma below_next_pow2: "0 < a \<Longrightarrow> a < 2 powi (expo a + 1)"
proof -
  assume a: "0 < a"
  have "floor_log2 a + 1 \<le> expo a + 1" by (simp add: expo_def)
  from pow2_mono[OF this] floor_log2_bounds(2)[OF a] show ?thesis by linarith
qed

lemma round_magnitude_nonneg: "0 < a \<Longrightarrow> 0 \<le> round_magnitude a"
proof -
  assume a: "0 < a"
  then have "0 \<le> a / 2 powi (expo a - 52)" by simp
  then have "0 \<le> rne (a / 2 powi (expo a - 52))" by (rule rne_nonneg)
  then show ?thesis by (simp add: round_magnitude_expo)
qed

lemma round_magnitude_upper: "0 < a \<Longrightarrow> round_magnitude a \<le> 2 powi (expo a + 1)"
proof -
  assume a: "0 < a"
  define u where "u = (2::real) powi (expo a - 52)"
  have u: "0 < u" by (simp add: u_def)
  have "a < 2 ^ 53 * u" using below_next_pow2[OF a] pow2_split[of "expo a"] by (simp add: u_def)
  then have "a / u \<le> of_int (2 ^ 53)" using u by (simp add: field_simps)
  from rne_mono[OF this] have "rne (a / u) \<le> 2 ^ 53" by (simp only: rne_of_int)
  then have "(of_int (rne (a / u)) :: real) \<le> 2 ^ 53"
    by (simp only: of_int_le_numeral_power_cancel_iff)
  then have "of_int (rne (a / u)) * u \<le> 2 ^ 53 * u" using u by (simp only: mult_le_cancel_right_pos)
  then show ?thesis using pow2_split[of "expo a"] by (simp add: round_magnitude_expo u_def)
qed

lemma round_magnitude_lower:
  assumes a: "0 < a" and k: "- 1022 \<le> k" and ka: "2 powi k \<le> a"
  shows "2 powi k \<le> round_magnitude a"
proof -
  from ka floor_log2_bounds(2)[OF a] have "(2::real) powi k < 2 powi (floor_log2 a + 1)" by linarith
  from pow2_less_imp[OF this] have kf: "k \<le> floor_log2 a" by simp
  with k have e: "expo a = floor_log2 a" by (simp add: expo_def)
  define u where "u = (2::real) powi (expo a - 52)"
  have u: "0 < u" by (simp add: u_def)
  have "2 ^ 52 * u \<le> a" using floor_log2_bounds(1)[OF a] pow2_split'[of "expo a"] e
    by (simp add: u_def)
  then have "of_int (2 ^ 52) \<le> a / u" using u by (simp add: field_simps)
  from rne_mono[OF this] have "2 ^ 52 \<le> rne (a / u)" by (simp only: rne_of_int)
  then have "(2::real) ^ 52 \<le> of_int (rne (a / u))"
    by (simp only: numeral_power_le_of_int_cancel_iff)
  then have "2 ^ 52 * u \<le> of_int (rne (a / u)) * u" using u by (simp only: mult_le_cancel_right_pos)
  then have "2 powi (expo a) \<le> round_magnitude a"
    using pow2_split'[of "expo a"] by (simp add: round_magnitude_expo u_def)
  moreover have "(2::real) powi k \<le> 2 powi (expo a)" using kf e by (simp add: pow2_mono)
  ultimately show ?thesis by linarith
qed

lemma round_magnitude_mono:
  assumes a: "0 < a" and ab: "a \<le> b"
  shows "round_magnitude a \<le> round_magnitude b"
proof -
  from a ab have b: "0 < b" by simp
  have ee: "expo a \<le> expo b" using a ab by (rule expo_mono)
  show ?thesis
  proof (cases "expo a = expo b")
    case True
    define u where "u = (2::real) powi (expo a - 52)"
    have u: "0 < u" by (simp add: u_def)
    have "a / u \<le> b / u" using ab u by (simp add: divide_right_mono)
    from rne_mono[OF this] have "(of_int (rne (a / u)) :: real) \<le> of_int (rne (b / u))"
      by (simp only: of_int_le_iff)
    then have "of_int (rne (a / u)) * u \<le> of_int (rne (b / u)) * u"
      using u by (simp only: mult_le_cancel_right_pos)
    then show ?thesis using True by (simp add: round_magnitude_expo u_def)
  next
    case False
    with ee have lt: "expo a + 1 \<le> expo b" by simp
    then have f: "expo b = floor_log2 b" "- 1022 \<le> expo b" by (auto simp add: expo_def)
    have "2 powi (expo b) \<le> b" using floor_log2_bounds(1)[OF b] f(1) by simp
    from round_magnitude_lower[OF b f(2) this]
    have "2 powi (expo b) \<le> round_magnitude b" .
    moreover have "round_magnitude a \<le> 2 powi (expo a + 1)" using a by (rule round_magnitude_upper)
    moreover have "(2::real) powi (expo a + 1) \<le> 2 powi (expo b)" using lt by (rule pow2_mono)
    ultimately show ?thesis by linarith
  qed
qed

lemma round_magnitude_below:
  assumes a: "0 < a" and k: "- 1021 \<le> k" and ak: "a < 2 powi k"
  shows "round_magnitude a \<le> 2 powi k"
proof -
  from ak floor_log2_bounds(1)[OF a] have "(2::real) powi (floor_log2 a) < 2 powi k" by linarith
  from pow2_less_imp[OF this] have "floor_log2 a + 1 \<le> k" by simp
  with k have "expo a + 1 \<le> k" by (simp add: expo_def)
  from pow2_mono[OF this] round_magnitude_upper[OF a] show ?thesis by linarith
qed

lemma round64_not_NaN [simp]: "round64 x \<noteq> NaN"
  by (simp add: round64_def)

lemma round64_zero [simp]: "round64 0 = Finite 0"
  by (simp add: round64_def)

lemma js_le_refl: "x \<noteq> NaN \<Longrightarrow> js_le x x"
  by (cases x) simp_all

lemma js_le_trans: "js_le x y \<Longrightarrow> js_le y z \<Longrightarrow> js_le x z"
  by (cases x; cases y; cases z) simp_all

lemma js_le_top: "x \<noteq> NaN \<Longrightarrow> js_le x PosInfinity"
  by (cases x) simp_all

lemma js_le_bot: "x \<noteq> NaN \<Longrightarrow> js_le NegInfinity x"
  by (cases x) simp_all

lemma js_le_not_NaN: "js_le x y \<Longrightarrow> x \<noteq> NaN \<and> y \<noteq> NaN"
  by (cases x; cases y) simp_all

lemma round64_pos:
  "0 < x \<Longrightarrow> round64 x = (if 2 ^ 1024 \<le> round_magnitude x then PosInfinity
                            else Finite (round_magnitude x))"
  by (simp add: round64_def)

lemma round64_neg:
  "x < 0 \<Longrightarrow> round64 x = (if 2 ^ 1024 \<le> round_magnitude (- x) then NegInfinity
                            else Finite (- round_magnitude (- x)))"
  by (simp add: round64_def)

lemma round64_mono: "x \<le> y \<Longrightarrow> js_le (round64 x) (round64 y)"
proof -
  assume xy: "x \<le> y"
  consider "0 < x" | "y < 0" | "x \<le> 0" "0 \<le> y" using xy by linarith
  then show ?thesis
  proof cases
    case 1
    then have y: "0 < y" using xy by simp
    from round_magnitude_mono[OF 1 xy] show ?thesis
      by (simp add: round64_pos 1 y)
  next
    case 2
    then have x: "x < 0" using xy by simp
    have "0 < - y" "- y \<le> - x" using 2 xy by simp_all
    from round_magnitude_mono[OF this] show ?thesis
      by (simp add: round64_neg 2 x)
  next
    case 3
    have a: "js_le (round64 x) (Finite 0)"
    proof (cases "x = 0")
      case True then show ?thesis by simp
    next
      case False
      with 3 have x: "x < 0" by simp
      then have "0 < - x" by simp
      from round_magnitude_nonneg[OF this] show ?thesis by (simp add: round64_neg x)
    qed
    have b: "js_le (Finite 0) (round64 y)"
    proof (cases "y = 0")
      case True then show ?thesis by simp
    next
      case False
      with 3 have y: "0 < y" by simp
      from round_magnitude_nonneg[OF this] show ?thesis by (simp add: round64_pos y)
    qed
    from a b show ?thesis by (rule js_le_trans)
  qed
qed

lemma floor_log2_unique:
  assumes "0 < a" "2 powi k \<le> a" "a < 2 powi (k + 1)"
  shows "floor_log2 a = k"
proof -
  from assms(2) floor_log2_bounds(2)[OF assms(1)]
  have "(2::real) powi k < 2 powi (floor_log2 a + 1)" by linarith
  from pow2_less_imp[OF this] have 1: "k \<le> floor_log2 a" by simp
  from assms(3) floor_log2_bounds(1)[OF assms(1)]
  have "(2::real) powi (floor_log2 a) < 2 powi (k + 1)" by linarith
  from pow2_less_imp[OF this] have 2: "floor_log2 a \<le> k" by simp
  from 1 2 show ?thesis by simp
qed

lemma overflow_iff:
  assumes a: "0 < a"
  shows "2 ^ 1024 \<le> round_magnitude a \<longleftrightarrow> 2 ^ 1024 - 2 ^ 970 \<le> a"
proof -
  have up: "2 ^ 1024 \<le> round_magnitude a" if "2 ^ 1024 \<le> a"
  proof -
    have "(2::real) powi 1024 \<le> a" using that by simp
    from round_magnitude_lower[OF a _ this] show ?thesis by simp
  qed
  have mid: "(2 ^ 1024 \<le> round_magnitude a) = (2 ^ 1024 - 2 ^ 970 \<le> a)"
    if lo: "2 ^ 1023 \<le> a" and hi: "a < 2 ^ 1024"
  proof -
    have "floor_log2 a = 1023" using a lo hi by (intro floor_log2_unique) simp_all
    then have e: "expo a = 1023" by (simp add: expo_def)
    have rm: "round_magnitude a = of_int (rne (a / 2 ^ 971)) * 2 ^ 971"
      by (simp add: round_magnitude_expo e)
    show ?thesis
    proof (cases "2 ^ 1024 - 2 ^ 970 \<le> a")
      case True
      then have "of_int (2 ^ 53 - 1) + 1 / 2 \<le> a / 2 ^ 971" by (simp add: field_simps)
      then have "rne (of_int (2 ^ 53 - 1) + 1 / 2) \<le> rne (a / 2 ^ 971)" by (rule rne_mono)
      moreover have "rne (of_int (2 ^ 53 - 1) + 1 / 2) = 2 ^ 53"
        by (simp add: rne_def)
      ultimately have "2 ^ 53 \<le> rne (a / 2 ^ 971)" by simp
      then have "(2::real) ^ 53 \<le> of_int (rne (a / 2 ^ 971))"
        by (simp only: numeral_power_le_of_int_cancel_iff)
      then have "(2::real) ^ 53 * 2 ^ 971 \<le> of_int (rne (a / 2 ^ 971)) * 2 ^ 971"
        by (simp only: mult_le_cancel_right_pos zero_less_numeral zero_less_power)
      then show ?thesis using True by (simp add: rm)
    next
      case False
      then have "a / 2 ^ 971 + 1 / 2 < 2 ^ 53" by (simp add: field_simps)
      with rne_bounds(1)[of "a / 2 ^ 971"] have "(of_int (rne (a / 2 ^ 971)) :: real) < 2 ^ 53"
        by linarith
      then have "rne (a / 2 ^ 971) < 2 ^ 53" by (simp only: of_int_less_numeral_power_cancel_iff)
      then have "rne (a / 2 ^ 971) \<le> 2 ^ 53 - 1" by simp
      then have "(of_int (rne (a / 2 ^ 971)) :: real) \<le> of_int (2 ^ 53 - 1)"
        by (simp only: of_int_le_iff)
      then have "(of_int (rne (a / 2 ^ 971)) :: real) * 2 ^ 971 \<le> of_int (2 ^ 53 - 1) * 2 ^ 971"
        by (simp only: mult_le_cancel_right_pos zero_less_numeral zero_less_power)
      then have "round_magnitude a < 2 ^ 1024" by (simp add: rm)
      then show ?thesis using False by simp
    qed
  qed
  have low: "round_magnitude a < 2 ^ 1024" if "a < 2 ^ 1023"
  proof -
    have "a < 2 powi 1023" using that by simp
    from round_magnitude_below[OF a _ this] show ?thesis by simp
  qed
  consider "a < 2 ^ 1023" | "2 ^ 1023 \<le> a" "a < 2 ^ 1024" | "2 ^ 1024 \<le> a" by linarith
  then show ?thesis
  proof cases
    case 1
    from low[OF 1] 1 show ?thesis by simp
  next
    case 2
    then show ?thesis by (rule mid)
  next
    case 3
    from up[OF 3] 3 show ?thesis by simp
  qed
qed

lemma round64_infinite_iff:
  "round64 x \<in> {PosInfinity, NegInfinity} \<longleftrightarrow> 2 ^ 1024 - 2 ^ 970 \<le> \<bar>x\<bar>"
proof -
  consider "x = 0" | "0 < x" | "x < 0" by linarith
  then show ?thesis
  proof cases
    case 1 then show ?thesis by simp
  next
    case 2
    then show ?thesis using overflow_iff[OF 2] by (simp add: round64_pos)
  next
    case 3
    then have "0 < - x" by simp
    from overflow_iff[OF this] 3 show ?thesis by (simp add: round64_neg)
  qed
qed

section \<open>Properties of the interpolation function\<close>

lemma js_div_mono:
  "0 < c \<Longrightarrow> js_le x y \<Longrightarrow> js_le (js_div x (Finite c)) (js_div y (Finite c))"
  by (cases x; cases y) (simp_all add: round64_mono divide_right_mono js_le_top js_le_bot)

lemma js_mul_mono:
  "0 < c \<Longrightarrow> js_le x y \<Longrightarrow> js_le (js_mul x (Finite c)) (js_mul y (Finite c))"
  by (cases x; cases y) (simp_all add: round64_mono mult_right_mono js_le_top js_le_bot)

lemma js_add_mono:
  "js_le x y \<Longrightarrow> js_le (js_add (Finite c) x) (js_add (Finite c) y)"
  by (cases x; cases y) (simp_all add: round64_mono js_le_top js_le_bot)

lemma Math_round_mono: "js_le x y \<Longrightarrow> js_le (Math_round x) (Math_round y)"
  by (cases x; cases y) (simp_all add: floor_mono)

lemma forceBetween_NaN [simp]: "forceBetween from to NaN = NaN"
  by (simp add: forceBetween_def js_gt_def)

lemma forceBetween_bounds:
  "x \<noteq> NaN \<Longrightarrow>
   \<exists>v. forceBetween from to x = Finite v \<and> min from to \<le> v \<and> v \<le> max from to"
  by (cases x) (auto simp add: forceBetween_def js_gt_def min_def max_def)

lemma forceBetween_not_infinite:
  "forceBetween from to x \<noteq> PosInfinity \<and> forceBetween from to x \<noteq> NegInfinity"
  by (cases x) (auto simp add: forceBetween_def js_gt_def)

lemma forceBetween_mono:
  "js_le x y \<Longrightarrow> js_le (forceBetween from to x) (forceBetween from to y)"
  by (cases x; cases y) (auto simp add: forceBetween_def js_gt_def)

lemma buildPropertyFunction_afterProduct:
  "buildPropertyFunction from to over s =
     number_of (afterProduct from to over (js_mul (js_sub (Finite to) (Finite from)) (Finite s)))"
  by (simp add: buildPropertyFunction_def afterProduct_def roundedValue_def scaledValue_def)

lemma afterProduct_mono:
  "0 < over \<Longrightarrow> js_le x y \<Longrightarrow> js_le (afterProduct from to over x) (afterProduct from to over y)"
  unfolding afterProduct_def
  by (intro forceBetween_mono js_div_mono Math_round_mono js_mul_mono js_add_mono) simp_all

lemma afterProduct_NaN [simp]: "afterProduct from to over NaN = NaN"
  by (simp add: afterProduct_def)

lemma afterProduct_bounds:
  assumes "0 < over" "b \<noteq> NaN"
  shows "\<exists>v. afterProduct from to over b = Finite v \<and> min from to \<le> v \<and> v \<le> max from to"
proof -
  have "js_le b b" using assms(2) by (rule js_le_refl)
  from afterProduct_mono[OF assms(1) this, of "from" to]
  have "afterProduct from to over b \<noteq> NaN" by (simp add: js_le_not_NaN)
  then obtain x where x: "x \<noteq> NaN" "afterProduct from to over b = forceBetween from to x"
    unfolding afterProduct_def by (metis forceBetween_NaN)
  from forceBetween_bounds[OF x(1), of "from" to] x(2) show ?thesis by simp
qed

lemma js_sub_Finite: "js_sub (Finite x) (Finite y) = round64 (x - y)"
  by (simp add: js_sub_def)

lemma product_NaN_iff:
  "js_mul (js_sub (Finite to) (Finite from)) (Finite s) = NaN \<longleftrightarrow>
   2 ^ 1024 - 2 ^ 970 \<le> \<bar>to - from\<bar> \<and> s = 0"
proof -
  have "js_mul (round64 (to - from)) (Finite s) = NaN \<longleftrightarrow>
        round64 (to - from) \<in> {PosInfinity, NegInfinity} \<and> s = 0"
    by (cases "round64 (to - from)") auto
  then show ?thesis by (simp only: js_sub_Finite round64_infinite_iff)
qed


lemma round64_overflow_neg: "x \<le> - (2 ^ 1024) \<Longrightarrow> round64 x = NegInfinity"
proof -
  assume x: "x \<le> - (2 ^ 1024)"
  then have "2 ^ 1024 - 2 ^ 970 \<le> \<bar>x\<bar>" by simp
  then have "round64 x \<in> {PosInfinity, NegInfinity}" by (simp only: round64_infinite_iff)
  moreover have "js_le (round64 x) (round64 0)" using x by (intro round64_mono) simp
  ultimately show ?thesis by auto
qed


text \<open>
  Claim C1, as stated: for every \<open>from\<close> and \<open>to\<close>, every \<open>over > 0\<close> and every scroll
  position the function built by \<open>buildPropertyFunction from to over\<close> returns a value
  between \<open>min from to\<close> and \<open>max from to\<close>. It does not where the difference \<open>to - from\<close>
  overflows: for \<open>from = 2 ^ 1023\<close> and \<open>to = - (2 ^ 1023)\<close> the difference is the negative
  infinity, its product with the scroll position 0 is NaN, and NaN is returned, neither
  of the two comparisons that force the value between \<open>from\<close> and \<open>to\<close> being true of it.
\<close>

theorem buildPropertyFunction_NaN_on_overflow:
  "buildPropertyFunction (2 ^ 1023) (- (2 ^ 1023)) 200 0 = None"
proof -
  have "round64 (- (2 ^ 1023) - 2 ^ 1023) = NegInfinity"
    by (rule round64_overflow_neg) simp
  then show ?thesis
    by (simp add: buildPropertyFunction_afterProduct js_sub_Finite)
qed


text \<open>
  Claim C1, amended. For every finite \<open>from\<close>, \<open>to\<close> and scroll position and every finite
  \<open>over > 0\<close>, the function built by \<open>buildPropertyFunction from to over\<close> returns NaN if
  the difference \<open>to - from\<close> overflows (its magnitude is \<open>2 ^ 1024 - 2 ^ 970\<close> or more) and
  the scroll position is 0; in every other case it returns a number between
  \<open>min from to\<close> and \<open>max from to\<close>, whatever the scroll position, negative or past \<open>over\<close>.
\<close>

theorem buildPropertyFunction_within_bounds_or_NaN:
  assumes "0 < over"
  shows "if 2 ^ 1024 - 2 ^ 970 \<le> \<bar>to - from\<bar> \<and> scrollPos = 0
         then buildPropertyFunction from to over scrollPos = None
         else \<exists>v. buildPropertyFunction from to over scrollPos = Some v \<and>
                  min from to \<le> v \<and> v \<le> max from to"
proof (cases "2 ^ 1024 - 2 ^ 970 \<le> \<bar>to - from\<bar> \<and> scrollPos = 0")
  case True
  then have "js_mul (js_sub (Finite to) (Finite from)) (Finite scrollPos) = NaN"
    by (simp only: product_NaN_iff)
  then show ?thesis using True by (simp add: buildPropertyFunction_afterProduct)
next
  case False
  then have "js_mul (js_sub (Finite to) (Finite from)) (Finite scrollPos) \<noteq> NaN"
    by (simp only: product_NaN_iff) simp
  from afterProduct_bounds[OF assms this, of "from" to] show ?thesis
    using False by (auto simp add: buildPropertyFunction_afterProduct)
qed


theorem buildPropertyFunction_within_bounds_or_NaN_witness:
  "(0::real) < 200 \<and>
   (\<exists>v. buildPropertyFunction 1 (1 / 2) 200 300 = Some v \<and>
        min 1 (1 / 2) \<le> v \<and> v \<le> max 1 (1 / 2))"
proof -
  have h: "(0::real) < 200" by simp
  from buildPropertyFunction_within_bounds_or_NaN[OF h, of "1 / 2" 1 300]
  show ?thesis by simp
qed

lemma product_mono:
  assumes "from \<le> to" "0 \<le> s1" "s1 \<le> s2"
    and "\<bar>to - from\<bar> < 2 ^ 1024 - 2 ^ 970 \<or> 0 < s1"
  shows "js_le (js_mul (js_sub (Finite to) (Finite from)) (Finite s1))
               (js_mul (js_sub (Finite to) (Finite from)) (Finite s2))"
proof -
  have nn: "js_le (Finite 0) (round64 (to - from))"
    using round64_mono[of 0 "to - from"] assms(1) by simp
  show ?thesis
  proof (cases "round64 (to - from)")
    case NaN
    then show ?thesis by simp
  next
    case NegInfinity
    with nn show ?thesis by simp
  next
    case (Finite a)
    with nn have "0 \<le> a" by simp
    then have "a * s1 \<le> a * s2" using assms(3) by (rule mult_left_mono[rotated])
    then show ?thesis using Finite by (simp add: js_sub_Finite round64_mono)
  next
    case PosInfinity
    then have "round64 (to - from) \<in> {PosInfinity, NegInfinity}" by simp
    then have "2 ^ 1024 - 2 ^ 970 \<le> \<bar>to - from\<bar>" by (simp only: round64_infinite_iff)
    with assms(4) have "0 < s1" by simp
    then show ?thesis using PosInfinity assms(3) by (simp add: js_sub_Finite)
  qed
qed

lemma product_anti:
  assumes "to \<le> from" "0 \<le> s1" "s1 \<le> s2"
    and "\<bar>to - from\<bar> < 2 ^ 1024 - 2 ^ 970 \<or> 0 < s1"
  shows "js_le (js_mul (js_sub (Finite to) (Finite from)) (Finite s2))
               (js_mul (js_sub (Finite to) (Finite from)) (Finite s1))"
proof -
  have nn: "js_le (round64 (to - from)) (Finite 0)"
    using round64_mono[of "to - from" 0] assms(1) by simp
  show ?thesis
  proof (cases "round64 (to - from)")
    case NaN
    then show ?thesis by simp
  next
    case PosInfinity
    with nn show ?thesis by simp
  next
    case (Finite a)
    with nn have "a \<le> 0" by simp
    then have "a * s2 \<le> a * s1" using assms(3) by (rule mult_left_mono_neg[rotated])
    then show ?thesis using Finite by (simp add: js_sub_Finite round64_mono)
  next
    case NegInfinity
    then have "round64 (to - from) \<in> {PosInfinity, NegInfinity}" by simp
    then have "2 ^ 1024 - 2 ^ 970 \<le> \<bar>to - from\<bar>" by (simp only: round64_infinite_iff)
    with assms(4) have "0 < s1" by simp
    then show ?thesis using NegInfinity assms(3) by (simp add: js_sub_Finite)
  qed
qed

lemma js_le_number_of:
  "js_le x y \<Longrightarrow> x \<noteq> PosInfinity \<Longrightarrow> x \<noteq> NegInfinity \<Longrightarrow> y \<noteq> PosInfinity \<Longrightarrow>
   y \<noteq> NegInfinity \<Longrightarrow> \<exists>v w. number_of x = Some v \<and> number_of y = Some w \<and> v \<le> w"
  by (cases x; cases y) simp_all


text \<open>
  Claim C7, as stated: for every \<open>from\<close> and \<open>to\<close>, every \<open>over > 0\<close> and scroll positions
  \<open>s1 < s2\<close> within \<open>[0, over]\<close>, the value at \<open>s1\<close> is at most the value at \<open>s2\<close> if
  \<open>to \<ge> from\<close>, and at least it otherwise. It is not where the difference \<open>to - from\<close>
  overflows: for \<open>from = 2 ^ 1023\<close>, \<open>to = - (2 ^ 1023)\<close> and \<open>over = 200\<close> the value at 0
  is NaN, which is at least no number, and the value at 100 is \<open>to\<close>.
\<close>

theorem buildPropertyFunction_not_monotone_on_overflow:
  "buildPropertyFunction (2 ^ 1023) (- (2 ^ 1023)) 200 0 = None \<and>
   buildPropertyFunction (2 ^ 1023) (- (2 ^ 1023)) 200 100 = Some (- (2 ^ 1023))"
proof -
  have "round64 (- (2 ^ 1023) - 2 ^ 1023) = NegInfinity"
    by (rule round64_overflow_neg) simp
  then show ?thesis
    by (simp add: buildPropertyFunction_def roundedValue_def scaledValue_def js_sub_Finite
        forceBetween_def js_gt_def)
qed

text \<open>
  Claim C7, amended. For every finite \<open>from\<close> and \<open>to\<close>, every finite \<open>over > 0\<close> and scroll
  positions \<open>s1 < s2\<close> within \<open>[0, over]\<close>, provided that the difference \<open>to - from\<close> does not
  overflow (its magnitude is less than \<open>2 ^ 1024 - 2 ^ 970\<close>) or that \<open>s1\<close> is not 0: the
  built function returns numbers at both, the one at \<open>s1\<close> at most the one at \<open>s2\<close> if
  \<open>to \<ge> from\<close>, and at least it otherwise.
\<close>

theorem buildPropertyFunction_monotone_without_overflow:
  assumes "0 < over" "0 \<le> s1" "s1 < s2" "s2 \<le> over"
    and "\<bar>to - from\<bar> < 2 ^ 1024 - 2 ^ 970 \<or> 0 < s1"
  shows "\<exists>v1 v2. buildPropertyFunction from to over s1 = Some v1 \<and>
                 buildPropertyFunction from to over s2 = Some v2 \<and>
                 (if to \<ge> from then v1 \<le> v2 else v1 \<ge> v2)"
proof (cases "from \<le> to")
  case True
  have "s1 \<le> s2" using assms(3) by simp
  from product_mono[OF True assms(2) this assms(5)]
  have "js_le (afterProduct from to over (js_mul (js_sub (Finite to) (Finite from)) (Finite s1)))
              (afterProduct from to over (js_mul (js_sub (Finite to) (Finite from)) (Finite s2)))"
    by (rule afterProduct_mono[OF assms(1)])
  from js_le_number_of[OF this] show ?thesis
    using True by (simp add: buildPropertyFunction_afterProduct afterProduct_def forceBetween_not_infinite)
next
  case False
  then have ft: "to \<le> from" by simp
  have "s1 \<le> s2" using assms(3) by simp
  from product_anti[OF ft assms(2) this assms(5)]
  have "js_le (afterProduct from to over (js_mul (js_sub (Finite to) (Finite from)) (Finite s2)))
              (afterProduct from to over (js_mul (js_sub (Finite to) (Finite from)) (Finite s1)))"
    by (rule afterProduct_mono[OF assms(1)])
  from js_le_number_of[OF this] show ?thesis
    using False by (auto simp add: buildPropertyFunction_afterProduct afterProduct_def forceBetween_not_infinite)
qed


theorem buildPropertyFunction_monotone_without_overflow_witness:
  "(0::real) < 200 \<and> (0::real) \<le> 50 \<and> (50::real) < 150 \<and> (150::real) \<le> 200 \<and>
   (\<exists>v1 v2. buildPropertyFunction 1 (1 / 2) 200 50 = Some v1 \<and>
            buildPropertyFunction 1 (1 / 2) 200 150 = Some v2 \<and> v1 \<ge> v2)"
proof -
  have h: "(0::real) < 200" "(0::real) \<le> 50" "(50::real) < 150" "(150::real) \<le> 200"
    by simp_all
  have o: "\<bar>1 / 2 - (1::real)\<bar> < 2 ^ 1024 - 2 ^ 970 \<or> (0::real) < 50" by simp
  from buildPropertyFunction_monotone_without_overflow[OF h o] show ?thesis by simp
qed

lemmas round64_eval = round64_def round_magnitude_def rne_def floor_log2_def Let_def compute_bitlen

lemmas interpolation_eval = buildPropertyFunction_def forceBetween_def roundedValue_def
  scaledValue_def js_sub_def js_gt_def round64_eval


lemma Math_round_half_away:
  "\<lfloor>p + 1 / 2\<rfloor> =
     (if p < 0 \<and> frac p = 1 / 2 then round_half_away p + 1 else round_half_away p)"
proof (cases "p < 0")
  case True
  have "\<lfloor>p + 1 / 2\<rfloor> = (if frac p = 1 / 2 then 1 else 0) - \<lfloor>- p + 1 / 2\<rfloor>"
  proof -
    have "\<lfloor>- p + 1 / 2\<rfloor> = - \<lceil>p - 1 / 2\<rceil>" by (simp add: ceiling_def)
    moreover have "\<lceil>p - 1 / 2\<rceil> = \<lceil>p + 1 / 2\<rceil> - 1"
    proof -
      have "p - 1 / 2 = (p + 1 / 2) - 1" by simp
      then show ?thesis by (metis ceiling_diff_one)
    qed
    moreover have "\<lceil>p + 1 / 2\<rceil> = (if frac p = 1 / 2 then \<lfloor>p + 1 / 2\<rfloor> else \<lfloor>p + 1 / 2\<rfloor> + 1)"
    proof (cases "frac p = 1 / 2")
      case True
      then have "p + 1 / 2 = of_int (\<lfloor>p\<rfloor> + 1)" by (simp add: frac_def)
      then have "p + 1 / 2 \<in> \<int>" by (metis Ints_of_int)
      then show ?thesis using True by (simp add: ceiling_altdef)
    next
      case False
      have "p + 1 / 2 \<notin> \<int>"
      proof
        assume "p + 1 / 2 \<in> \<int>"
        then obtain k :: int where k: "p + 1 / 2 = of_int k" by (auto elim: Ints_cases)
        then have "p - 1 / 2 = of_int (k - 1)" by simp
        then have "p - 1 / 2 \<in> \<int>" by (simp only: Ints_of_int)
        then have "frac p = 1 / 2" using frac_unique_iff[of p "1 / 2"] by simp
        with False show False by simp
      qed
      then have "p + 1 / 2 \<noteq> of_int \<lfloor>p + 1 / 2\<rfloor>" by (metis Ints_of_int)
      then show ?thesis using False by (simp only: ceiling_altdef if_False)
    qed
    ultimately show ?thesis by auto
  qed
  then show ?thesis using True by (simp add: round_half_away_def)
next
  case False
  then show ?thesis by (simp add: round_half_away_def)
qed


text \<open>
  Claim C6, as stated: the rounding of \<open>buildPropertyFunction\<close> is rounding half away
  from zero at the hundredths digit of the raw value \<open>from + (to - from) * scrollPos / over\<close>,
  for all inputs, negative raw values included. It is not: the raw value \<open>-0.125\<close> is
  rounded to the binary64 number nearest to \<open>-0.12\<close>, not to \<open>-0.13\<close>.
\<close>

theorem roundedValue_not_half_away:
  "roundedValue (- (1 / 8)) (- (1 / 8)) 70 3 = Finite (- (1080863910568919 / 2 ^ 53)) \<and>
   round_half_away_hundredths (exactRaw (- (1 / 8)) (- (1 / 8)) 70 3) = - (13 / 100)"
  by (simp add: interpolation_eval round_half_away_hundredths_def round_half_away_def exactRaw_def)


text \<open>
  Claim C6, amended. The interpolator computes the hundredfold \<open>p\<close> of the raw value in
  binary64 arithmetic (\<open>scaledValue\<close>: every operation rounds), rounds \<open>p\<close> to an integer
  with \<^verbatim>\<open>Math.round\<close>, the nearest integer, a tie going to the larger one, and divides
  the integer by 100 in binary64 arithmetic (before clamping). The integer is \<open>p\<close>
  rounded half away from zero, but for a negative \<open>p\<close> halfway between two integers,
  where it is one larger. An infinite \<open>p\<close> and NaN are left as they are. (Since \<open>p\<close> is
  the product as binary64 computes it, the result is not always the raw value rounded at
  its hundredths digit: \<open>23 / 40\<close> gives the binary64 number nearest to \<open>0.57\<close>.)
\<close>

theorem roundedValue_rounds_scaled_double:
  "roundedValue from to over s =
     (case scaledValue from to over s of
        Finite p \<Rightarrow>
          round64 (of_int (if p < 0 \<and> frac p = 1 / 2 then round_half_away p + 1
                           else round_half_away p) / 100)
      | x \<Rightarrow> x)"
proof (cases "scaledValue from to over s")
  case (Finite p)
  have "roundedValue from to over s = round64 (of_int \<lfloor>p + 1 / 2\<rfloor> / 100)"
    by (simp add: roundedValue_def Finite)
  also have "\<lfloor>p + 1 / 2\<rfloor> =
      (if p < 0 \<and> frac p = 1 / 2 then round_half_away p + 1 else round_half_away p)"
    by (rule Math_round_half_away)
  finally show ?thesis by (simp only: Finite float64.case)
qed (simp_all add: roundedValue_def)


theorem roundedValue_rounds_scaled_double_witness:
  "scaledValue 0 1 40 23 = Finite (8092405580431359 / 2 ^ 47) \<and>
   roundedValue 0 1 40 23 = Finite (5134103575202365 / 2 ^ 53) \<and>
   round_half_away_hundredths (exactRaw 0 1 40 23) = 58 / 100"
proof -
  have s: "scaledValue 0 1 40 23 = Finite (8092405580431359 / 2 ^ 47)"
    by (simp add: interpolation_eval)
  have r: "round64 (57 / 100) = Finite (5134103575202365 / 2 ^ 53)"
    by (simp add: round64_eval)
  have h: "round_half_away (8092405580431359 / 2 ^ 47) = 57"
    by (simp add: round_half_away_def)
  from roundedValue_rounds_scaled_double[of 0 1 40 23] show ?thesis
    by (simp add: s r h round_half_away_hundredths_def round_half_away_def exactRaw_def)
qed


lemma buildPropertyFunction_constant_10:
  "over \<noteq> 0 \<Longrightarrow> buildPropertyFunction 10 10 over s = Some 10"
  by (simp add: interpolation_eval)

lemma demo_values:
  "buildPropertyFunction 10 20 200 100 = Some 15"
  "buildPropertyFunction 0 90 200 100 = Some 45"
  "buildPropertyFunction 1 0 200 100 = Some (1 / 2)"
  "buildPropertyFunction 1 (1 / 2) 200 100 = Some (3 / 4)"
  by (simp_all add: interpolation_eval)


lemma buildPropertyFunction_examples:
  "buildPropertyFunction 0 1 40 3 = Some (5764607523034235 / 2 ^ 56)"
  "buildPropertyFunction (- 1) 0 8 7 = Some (- (1080863910568919 / 2 ^ 53))"
  by (simp_all add: interpolation_eval)

section \<open>Properties of the initialisation\<close>

lemma parseFloat_decimal_10px: "parseFloat_decimal (Some ''10px'') = Some 10"
  by (simp add: parseFloat_decimal_def split_sign_def is_space_def is_digit_def
      exponent_part_def round64_eval)

lemma exports_init_demo: "exports_init demo_platform None (Some demo_options) = Inr demo_world"
  by (simp add: exports_init_def new_ScrollBinder_def initAnimations_def initSelector_def
      initProperty_def hasOwnProperty_def demo_platform_def demo_options_def demo_world_def
      parseFloat_decimal_10px)






lemma tween_without_over_Nullish [simp]: "tween_without_over v = Nullish \<longleftrightarrow> v = Nullish"
  by (cases v) simp_all




text \<open>
  The objects that the initialisation builds have no own property named
  \<^verbatim>\<open>hasOwnProperty\<close>: the loops that build them throw on an object that has one.
\<close>

lemma update_keys_subset: "fst ` set (AList.update k v al) = insert k (fst ` set al)"
  by (simp add: dom_update)

lemma update_list_all: "Q (k, v) \<Longrightarrow> list_all Q al \<Longrightarrow> list_all Q (AList.update k v al)"
  by (induction al) auto

lemma initProperties_keys:
  "initProperties P this el props rest acc = Inr ps \<Longrightarrow>
     set (map fst ps) \<subseteq> set (map fst acc) \<union> set (map fst rest) \<and>
     (rest \<noteq> [] \<longrightarrow> ''hasOwnProperty'' \<notin> set (map fst props))"
proof (induction rest arbitrary: acc)
  case Nil
  then show ?case by simp
next
  case (Cons pv rest)
  obtain property "value" where pv: "pv = (property, value)" by (cases pv)
  from Cons.prems have h: "''hasOwnProperty'' \<notin> set (map fst props)"
    by (auto simp add: pv hasOwnProperty_def split: if_splits)
  show ?case
  proof (cases "property \<in> set (map fst props)")
    case True
    with Cons.prems h obtain b reads where
      "initProperties P this el props rest (AList.update property b acc) = Inr ps"
      by (auto simp add: pv hasOwnProperty_def split: sum.splits)
    from Cons.IH[OF this] show ?thesis using h by (auto simp add: pv update_keys_subset)
  next
    case False
    with Cons.prems h have "initProperties P this el props rest acc = Inr ps"
      by (auto simp add: pv hasOwnProperty_def)
    from Cons.IH[OF this] show ?thesis using h by (auto simp add: pv)
  qed
qed

lemma initSelector_no_hasOwnProperty:
  assumes "initSelector P this selector' props = Inr a"
  shows "''hasOwnProperty'' \<notin> set (map fst (properties a))"
proof -
  from assms obtain el ps where ps: "initProperties P this el props props [] = Inr ps"
    and a: "properties a = ps"
    by (auto simp add: initSelector_def split: sum.splits)
  from initProperties_keys[OF ps] show ?thesis unfolding a by (cases props) auto
qed

lemma initSelectors_no_hasOwnProperty:
  "initSelectors P this config rest acc = Inr as \<Longrightarrow>
   list_all (\<lambda>(s, a). ''hasOwnProperty'' \<notin> set (map fst (properties a))) acc \<Longrightarrow>
     list_all (\<lambda>(s, a). ''hasOwnProperty'' \<notin> set (map fst (properties a))) as \<and>
     set (map fst as) \<subseteq> set (map fst acc) \<union> set (map fst rest) \<and>
     (rest \<noteq> [] \<longrightarrow> ''hasOwnProperty'' \<notin> set (map fst config))"
proof (induction rest arbitrary: acc)
  case Nil
  then show ?case by simp
next
  case (Cons sp rest)
  obtain selector' props where sp: "sp = (selector', props)" by (cases sp)
  from Cons.prems(1) have h: "''hasOwnProperty'' \<notin> set (map fst config)"
    by (auto simp add: sp hasOwnProperty_def split: if_splits)
  show ?case
  proof (cases "selector' \<in> set (map fst config)")
    case True
    with Cons.prems(1) h obtain s where s: "initSelector P this selector' props = Inr s"
      and r: "initSelectors P this config rest (AList.update selector' s acc) = Inr as"
      by (auto simp add: sp hasOwnProperty_def split: sum.splits)
    have "list_all (\<lambda>(s, a). ''hasOwnProperty'' \<notin> set (map fst (properties a)))
            (AList.update selector' s acc)"
      using initSelector_no_hasOwnProperty[OF s] Cons.prems(2) by (simp add: update_list_all)
    from Cons.IH[OF r this] show ?thesis using h by (auto simp add: sp update_keys_subset)
  next
    case False
    with Cons.prems(1) h have "initSelectors P this config rest acc = Inr as"
      by (auto simp add: sp hasOwnProperty_def)
    from Cons.IH[OF this Cons.prems(2)] show ?thesis using h by (auto simp add: sp)
  qed
qed

lemma exports_init_no_hasOwnProperty:
  assumes "exports_init P el opts = Inr w"
  shows "''hasOwnProperty'' \<notin> set (map fst (animations w)) \<and>
         list_all (\<lambda>(s, a). ''hasOwnProperty'' \<notin> set (map fst (properties a))) (animations w)"
proof -
  from assms obtain this where n: "new_ScrollBinder P el opts = Inr this"
    and a: "animations w = animations this"
    by (auto simp add: exports_init_def split: sum.splits)
  from n obtain config this' where "initAnimations P config this' = Inr this"
    unfolding new_ScrollBinder_def Let_def by blast
  then have "initSelectors P this' config config [] = Inr (animations this)"
    by (auto simp add: initAnimations_def split: sum.splits)
  then have r: "initSelectors P this' config config [] = Inr (animations w)"
    by (simp only: a)
  from initSelectors_no_hasOwnProperty[OF r] show ?thesis by (cases config) auto
qed




text \<open>
  Claim C8. For a tween without \<open>from\<close> (and likewise without \<open>to\<close>), \<open>initProperty\<close>
  reads the computed style of the property from the target and parses it as a number,
  taking 0 when the parse gives no number; that is no error, a binding is returned.
  With neither \<open>from\<close> nor \<open>to\<close> and a computed style \<^verbatim>\<open>10px\<close>, the binding has \<open>from = 10\<close>
  and \<open>to = 10\<close>, and its function is constant: 10 at every scroll position.
\<close>

theorem initProperty_inherits_computed_style:
  "\<exists>b. initProperty P this property (Tween v) el =
         Inr (b, (if tween_from v = None then [property] else []) @
                 (if tween_to v = None then [property] else [])) \<and>
       fn b = buildPropertyFunction
                (case tween_from v of
                   Some x \<Rightarrow> x
                 | None \<Rightarrow> (case parseFloat P (css P el property) of None \<Rightarrow> 0 | Some x \<Rightarrow> x))
                (case tween_to v of
                   Some x \<Rightarrow> x
                 | None \<Rightarrow> (case parseFloat P (css P el property) of None \<Rightarrow> 0 | Some x \<Rightarrow> x))
                (case tween_over v of
                   None \<Rightarrow> scrollDistance this
                 | Some None \<Rightarrow> scrollDistance this
                 | Some (Some x) \<Rightarrow> if x = 0 then scrollDistance this else x) \<and>
       (tween_from v = None \<and> tween_to v = None \<and> css P el property = Some ''10px'' \<and>
        parseFloat P = parseFloat_decimal \<and> scrollDistance this \<noteq> 0 \<longrightarrow>
          fn b = buildPropertyFunction 10 10
                   (case tween_over v of
                      None \<Rightarrow> scrollDistance this
                    | Some None \<Rightarrow> scrollDistance this
                    | Some (Some x) \<Rightarrow> if x = 0 then scrollDistance this else x) \<and>
          (\<forall>scrollPos. fn b scrollPos = Some 10))"
  by (auto simp add: initProperty_def Let_def parseFloat_decimal_10px
      buildPropertyFunction_constant_10 split: option.splits)

theorem initProperty_inherits_computed_style_witness:
  "\<exists>b. initProperty demo_platform demo_world ''padding-top''
           (Tween \<lparr> tween_from = None, tween_to = None, tween_over = None,
                   tween_unit = None \<rparr>) ''body'' =
         Inr (b, [''padding-top'', ''padding-top'']) \<and>
       fn b = buildPropertyFunction 10 10 200 \<and>
       fn b (- 30) = Some 10 \<and> fn b 100 = Some 10 \<and> fn b 1000 = Some 10"
  using initProperty_inherits_computed_style[of demo_platform demo_world "''padding-top''"
      "\<lparr> tween_from = None, tween_to = None, tween_over = None, tween_unit = None \<rparr>"
      "''body''"]
  by (auto simp add: demo_platform_def demo_world_def parseFloat_decimal_10px
      buildPropertyFunction_constant_10)

text \<open>
  Claim C10. For a tween in which both \<open>from\<close> and \<open>to\<close> are given, \<open>initProperty\<close> makes
  no read of the computed style, and what it returns (the function, the transform flag
  and the unit) is the same in any two environments that differ only in the computed
  styles they would return.
\<close>

theorem initProperty_ignores_computed_style:
  assumes "tween_from v = Some a" "tween_to v = Some b"
  shows "(\<exists>bnd. initProperty P this property (Tween v) el = Inr (bnd, [])) \<and>
         initProperty (P\<lparr> css := css1 \<rparr>) this property (Tween v) el =
         initProperty (P\<lparr> css := css2 \<rparr>) this property (Tween v) el"
  using assms by (simp add: initProperty_def Let_def)

theorem initProperty_ignores_computed_style_witness:
  "(\<exists>bnd. initProperty demo_platform demo_world ''scale''
            (Tween \<lparr> tween_from = Some 1, tween_to = Some (1 / 2), tween_over = None,
                    tween_unit = None \<rparr>) ''body .logo'' = Inr (bnd, [])) \<and>
   initProperty (demo_platform\<lparr> css := \<lambda>q property. Some ''3px'' \<rparr>) demo_world ''scale''
     (Tween \<lparr> tween_from = Some 1, tween_to = Some (1 / 2), tween_over = None,
             tween_unit = None \<rparr>) ''body .logo'' =
   initProperty (demo_platform\<lparr> css := \<lambda>q property. None \<rparr>) demo_world ''scale''
     (Tween \<lparr> tween_from = Some 1, tween_to = Some (1 / 2), tween_over = None,
             tween_unit = None \<rparr>) ''body .logo''"
  using initProperty_ignores_computed_style[of
      "\<lparr> tween_from = Some 1, tween_to = Some (1 / 2), tween_over = None, tween_unit = None \<rparr>"
      1 "1 / 2" demo_platform demo_world "''scale''" "''body .logo''"
      "\<lambda>q property. Some ''3px''" "\<lambda>q property. None"]
  by simp


section \<open>Properties of the frame callback\<close>

lemma update_new_key: "k \<notin> fst ` set al \<Longrightarrow> AList.update k v al = al @ [(k, v)]"
  by (induction al) auto

lemma animateProperties_distinct:
  "distinct (map fst props) \<Longrightarrow> fst ` set props \<inter> fst ` set stack = {} \<Longrightarrow>
   animateProperties P s el props (stack, calls) =
     (stack @ map (\<lambda>(p, b). (p, valueString P b s)) (filter (\<lambda>(p, b). isTransform b) props),
      calls @ map (\<lambda>(p, b). CssSet el p (valueString P b s))
                  (filter (\<lambda>(p, b). \<not> isTransform b) props))"
proof (induction props arbitrary: stack calls)
  case Nil
  then show ?case by simp
next
  case (Cons a props)
  obtain p b where a: "a = (p, b)" by (cases a)
  from Cons.prems a have new: "p \<notin> fst ` set stack" and d: "distinct (map fst props)"
    and notin: "p \<notin> fst ` set props" and disj: "fst ` set props \<inter> fst ` set stack = {}"
    by auto
  show ?case
  proof (cases "isTransform b")
    case True
    have disj': "fst ` set props \<inter> fst ` set (stack @ [(p, valueString P b s)]) = {}"
      using disj notin by auto
    show ?thesis using True a Cons.IH[OF d disj'] by (simp add: update_new_key[OF new])
  next
    case False
    show ?thesis using False a Cons.IH[OF d disj] by simp
  qed
qed

lemma buildTransformString_concat:
  "buildTransformString stack acc = acc @ concat (map (\<lambda>(p, v). p @ ''('' @ v @ '') '') stack)"
  by (induction stack arbitrary: acc) auto

lemma animateSelector_expected:
  assumes "distinct (map fst (properties animation))"
  shows "animateSelector P scrollPos animation = expectedCalls P scrollPos animation"
proof -
  have "animateProperties P scrollPos (sel_element animation) (properties animation) ([], []) =
     (map (\<lambda>(p, b). (p, valueString P b scrollPos))
          (filter (\<lambda>(p, b). isTransform b) (properties animation)),
      map (\<lambda>(p, b). CssSet (sel_element animation) p (valueString P b scrollPos))
          (filter (\<lambda>(p, b). \<not> isTransform b) (properties animation)))"
    using animateProperties_distinct[OF assms, of "[]" P scrollPos "sel_element animation" "[]"]
    by simp
  moreover have "concat (map (\<lambda>(p, v). p @ ''('' @ v @ '') '')
                   (map (\<lambda>(p, b). (p, valueString P b scrollPos)) xs)) =
                 concat (map (\<lambda>(p, b). p @ ''('' @ valueString P b scrollPos @ '') '') xs)" for xs
    by (induction xs) auto
  ultimately show ?thesis
    by (simp add: animateSelector_def expectedCalls_def compositeString_def Let_def
        buildTransformString_concat)
qed

lemma frameCallback_expected:
  "list_all (\<lambda>(selector', animation). distinct (map fst (properties animation))) anims \<Longrightarrow>
   frameCallback P scrollPos anims =
     concat (map (\<lambda>(selector', animation). expectedCalls P scrollPos animation) anims)"
  by (induction anims) (auto simp add: animateSelector_expected)

lemma demo_valueStrings:
  "valueString demo_platform
     \<lparr> fn = buildPropertyFunction 10 20 200, isTransform = False, unit = ''px'' \<rparr> 100 = ''15px''"
  "valueString demo_platform
     \<lparr> fn = buildPropertyFunction 0 90 200, isTransform = True, unit = ''deg'' \<rparr> 100 = ''45deg''"
  "valueString demo_platform
     \<lparr> fn = buildPropertyFunction 1 0 200, isTransform = False, unit = [] \<rparr> 100 = ''0.5''"
  "valueString demo_platform
     \<lparr> fn = buildPropertyFunction 1 (1 / 2) 200, isTransform = True, unit = [] \<rparr> 100 = ''0.75''"
  by (simp_all add: valueString_def demo_platform_def demo_values decimalString_def)

text \<open>
  Claim C2. One call of \<open>animate\<close> requests one frame callback, and the run of that
  callback makes, for each selector, the writes \<open>expectedCalls\<close>: the properties that are
  no transform are written one by one, the transform properties are not written one by
  one but gathered, in the order of their declaration, into the one string
  \<^verbatim>\<open>prop1(value1unit1) prop2(value2unit2) \<close>, which is written once, to the transform style
  and its prefixed forms in a single call; a selector without a transform property gets
  no such write. (The properties of a selector, being the keys of an object, are
  distinct.)
\<close>

theorem animate_writes_transforms_once:
  assumes "list_all (\<lambda>(selector', animation). distinct (map fst (properties animation)))
             (animations w)"
    and "frames w = []"
  shows "frames (animate scrollPos w) = [scrollPos] \<and>
         (\<exists>w'. do_step P Frame (animate scrollPos w) = Some w' \<and> frames w' = [] \<and>
            writes w' = writes w @
              concat (map (\<lambda>(selector', animation). expectedCalls P scrollPos animation)
                          (animations w)))"
  using assms frameCallback_expected[OF assms(1), of P scrollPos]
  by (simp add: animate_def do_step_def)

theorem animate_writes_transforms_once_witness:
  "frames (animate 100 demo_world) = [100] \<and>
   (\<exists>w'. do_step demo_platform Frame (animate 100 demo_world) = Some w' \<and> frames w' = [] \<and>
      writes w' =
        [CssSet ''body'' ''padding-top'' ''15px'',
         CssSet ''body .logo'' ''opacity'' ''0.5'',
         CssSetMap ''body .logo''
           [(''-webkit-transform'', ''rotate(45deg) scale(0.75) ''),
            (''-ms-transform'', ''rotate(45deg) scale(0.75) ''),
            (''transform'', ''rotate(45deg) scale(0.75) '')]])"
proof -
  have h1: "list_all (\<lambda>(selector', animation). distinct (map fst (properties animation)))
              (animations demo_world)"
    by (simp add: demo_world_def)
  have h2: "frames demo_world = []" by (simp add: demo_world_def)
  show ?thesis
    using animate_writes_transforms_once[OF h1 h2, of 100 demo_platform]
    by (simp add: demo_world_def expectedCalls_def compositeString_def demo_valueStrings)
qed


section \<open>Properties of the throttle\<close>

lemma without_Nil [simp]: "without h [] = []"
  by (cases h) simp_all

lemma set_without: "set (without h ts) = {(h', d, c). (h', d, c) \<in> set ts \<and> h \<noteq> Some h'}"
  by (cases h) auto

lemmas throttle_defs =
  do_step_def onScroll_def setTimeout_def clearTimeout_def animate_def fire_def Let_def




lemma next_due_member: "next_due ts = Some tm \<Longrightarrow> tm \<in> set ts"
  by (induction ts arbitrary: tm) (auto split: option.splits if_splits)

lemma next_due_least: "next_due ts = Some (h, d, c) \<Longrightarrow> (h', d', c') \<in> set ts \<Longrightarrow> d \<le> d'"
proof (induction ts arbitrary: h d c)
  case Nil
  then show ?case by simp
next
  case (Cons a ts)
  obtain ha da ca where a: "a = (ha, da, ca)" by (cases a)
  show ?case
  proof (cases "next_due ts")
    case None
    then have "ts = []" by (cases ts) (auto split: option.splits prod.splits if_splits)
    with Cons.prems a None show ?thesis by auto
  next
    case (Some b)
    obtain hb db cb where b: "b = (hb, db, cb)" by (cases b)
    from Cons.IH[of hb db cb] Some b have least: "(h', d', c') \<in> set ts \<Longrightarrow> db \<le> d'" by simp
    from Cons.prems a Some b show ?thesis
      using least by (auto split: if_splits)
  qed
qed

lemma onScroll_dropped: "\<not> scrollFlag w \<Longrightarrow> onScroll b w = w"
  by (simp add: onScroll_def)

lemma onScroll_False_fields:
  assumes "scrollFlag w"
  shows "timers (onScroll False w) =
           without (scrollEnd w) (timers w) @
             [(nextHandle w, now w + 16, SetScrollFlag),
              (Suc (nextHandle w), now w + 64, ScrollEndCall)]"
    and "scrollFlag (onScroll False w) = False"
    and "scrollEnd (onScroll False w) = Some (Suc (nextHandle w))"
    and "now (onScroll False w) = now w"
    and "animated (onScroll False w) = animated w @ [(now w, scrollTop w)]"
  using assms
  by (simp_all add: onScroll_def setTimeout_def clearTimeout_def animate_def Let_def)

lemma onScroll_True_fields:
  assumes "scrollFlag w"
  shows "timers (onScroll True w) =
           without (scrollEnd w) (timers w) @ [(nextHandle w, now w + 16, SetScrollFlag)]"
    and "scrollFlag (onScroll True w) = False"
    and "scrollEnd (onScroll True w) = scrollEnd w"
    and "now (onScroll True w) = now w"
    and "animated (onScroll True w) = animated w @ [(now w, scrollTop w)]"
  using assms
  by (simp_all add: onScroll_def setTimeout_def clearTimeout_def animate_def Let_def)


lemma inv_onScroll_False:
  assumes "throttle_inv w"
  shows "throttle_inv (onScroll False w)"
proof (cases "scrollFlag w")
  case False
  then show ?thesis using assms by (simp add: onScroll_dropped)
next
  case True
  note f = onScroll_False_fields[OF True]
  from assms True have noflag: "\<And>h d. (h, d, SetScrollFlag) \<notin> set (timers w)"
    and se: "\<And>h d. (h, d, ScrollEndCall) \<in> set (timers w) \<Longrightarrow> scrollEnd w = Some h"
    and nw: "\<And>h d c. (h, d, c) \<in> set (timers w) \<Longrightarrow> now w \<le> d"
    unfolding throttle_inv_def by blast+
  have a: "\<forall>h d h' d'. (h, d, SetScrollFlag) \<in> set (timers (onScroll False w)) \<longrightarrow>
                  (h', d', SetScrollFlag) \<in> set (timers (onScroll False w)) \<longrightarrow> h = h'"
    using noflag by (auto simp add: f set_without)
  have b: "\<forall>h d. (h, d, ScrollEndCall) \<in> set (timers (onScroll False w)) \<longrightarrow>
             scrollEnd (onScroll False w) = Some h"
    using se by (auto simp add: f set_without)
  have c: "\<forall>h d. (h, d, ScrollEndCall) \<in> set (timers (onScroll False w)) \<longrightarrow>
               (\<exists>h' d'. (h', d', SetScrollFlag) \<in> set (timers (onScroll False w)) \<and> d' < d)"
  proof (intro allI impI)
    fix h d assume "(h, d, ScrollEndCall) \<in> set (timers (onScroll False w))"
    then have "d = now w + 64" using se by (auto simp add: f set_without)
    moreover have "(nextHandle w, now w + 16, SetScrollFlag) \<in> set (timers (onScroll False w))"
      by (simp add: f)
    ultimately show "\<exists>h' d'. (h', d', SetScrollFlag) \<in> set (timers (onScroll False w)) \<and> d' < d"
      by (intro exI[of _ "nextHandle w"] exI[of _ "now w + 16"]) simp
  qed
  have d: "\<forall>h d c. (h, d, c) \<in> set (timers (onScroll False w)) \<longrightarrow> now (onScroll False w) \<le> d"
    using nw by (auto simp add: f set_without)
  show ?thesis unfolding throttle_inv_def using a b c d by (simp add: f(2))
qed

lemma inv_next_ScrollEnd_flag:
  assumes "throttle_inv w" "next_due (timers w) = Some (h, d, ScrollEndCall)"
  shows "scrollFlag w"
proof (rule ccontr)
  assume nf: "\<not> scrollFlag w"
  from assms(2) have mem: "(h, d, ScrollEndCall) \<in> set (timers w)" by (rule next_due_member)
  with assms(1) nf obtain h' d' where "(h', d', SetScrollFlag) \<in> set (timers w)" "d' < d"
    unfolding throttle_inv_def by blast
  with next_due_least[OF assms(2)] show False by fastforce
qed

lemma inv_onScroll_True:
  assumes "throttle_inv w" "\<And>h d. (h, d, ScrollEndCall) \<notin> set (timers w)"
  shows "throttle_inv (onScroll True w)"
proof (cases "scrollFlag w")
  case False
  then show ?thesis using assms by (simp add: onScroll_dropped)
next
  case True
  note f = onScroll_True_fields[OF True]
  from assms(1) True have noflag: "\<And>h d. (h, d, SetScrollFlag) \<notin> set (timers w)"
    and nw: "\<And>h d c. (h, d, c) \<in> set (timers w) \<Longrightarrow> now w \<le> d"
    unfolding throttle_inv_def by blast+
  have a: "\<forall>h d h' d'. (h, d, SetScrollFlag) \<in> set (timers (onScroll True w)) \<longrightarrow>
                  (h', d', SetScrollFlag) \<in> set (timers (onScroll True w)) \<longrightarrow> h = h'"
    using noflag by (auto simp add: f set_without)
  have b: "\<And>h d. (h, d, ScrollEndCall) \<notin> set (timers (onScroll True w))"
    using assms(2) by (auto simp add: f set_without)
  have d: "\<forall>h d c. (h, d, c) \<in> set (timers (onScroll True w)) \<longrightarrow> now (onScroll True w) \<le> d"
    using nw by (auto simp add: f set_without)
  show ?thesis unfolding throttle_inv_def using a b d by (simp add: f(2))
qed

lemma inv_fire:
  assumes inv: "throttle_inv w" and nd: "next_due (timers w) = Some tm"
  shows "throttle_inv (fire tm w)"
proof -
  obtain h d c where tm: "tm = (h, d, c)" by (cases tm)
  from nd tm have mem: "(h, d, c) \<in> set (timers w)" by (auto dest: next_due_member)
  have least: "\<And>h' d' c'. (h', d', c') \<in> set (timers w) \<Longrightarrow> d \<le> d'"
    using next_due_least nd tm by blast
  from inv have i1: "scrollFlag w \<Longrightarrow> (h', d', SetScrollFlag) \<notin> set (timers w)"
    and i2: "(h', d', SetScrollFlag) \<in> set (timers w) \<Longrightarrow>
             (h'', d'', SetScrollFlag) \<in> set (timers w) \<Longrightarrow> h' = h''"
    and i3: "(h', d', ScrollEndCall) \<in> set (timers w) \<Longrightarrow> scrollEnd w = Some h'"
    and i5: "(h', d', c') \<in> set (timers w) \<Longrightarrow> now w \<le> d'"
    for h' d' h'' d'' c'
    unfolding throttle_inv_def by blast+
  from i5 mem have nowd: "now w \<le> d" by blast
  define w1 where "w1 = w\<lparr> timers := without (Some h) (timers w), now := max (now w) d \<rparr>"
  have t1: "set (timers w1) = {(h', d', c'). (h', d', c') \<in> set (timers w) \<and> h' \<noteq> h}"
    by (auto simp add: w1_def)
  have n1: "now w1 = d" using nowd by (simp add: w1_def max_def)
  have e1: "scrollEnd w1 = scrollEnd w" and f1: "scrollFlag w1 = scrollFlag w"
    by (simp_all add: w1_def)
  have c5: "\<forall>h' d' c'. (h', d', c') \<in> set (timers w1) \<longrightarrow> d \<le> d'"
    using least by (auto simp add: t1)
  have c3: "\<forall>h' d'. (h', d', ScrollEndCall) \<in> set (timers w1) \<longrightarrow> scrollEnd w = Some h'"
    using i3 by (auto simp add: t1)
  have c2: "\<forall>h' d' h'' d''. (h', d', SetScrollFlag) \<in> set (timers w1) \<longrightarrow>
                  (h'', d'', SetScrollFlag) \<in> set (timers w1) \<longrightarrow> h' = h''"
    using i2 by (auto simp add: t1)
  show ?thesis
  proof (cases c)
    case SetScrollFlag
    have eq: "fire tm w = w1\<lparr> scrollFlag := True \<rparr>"
      by (simp add: fire_def tm SetScrollFlag w1_def)
    have c1: "\<forall>h' d'. (h', d', SetScrollFlag) \<notin> set (timers w1)"
      using i2 mem SetScrollFlag by (auto simp add: t1)
    show ?thesis unfolding eq throttle_inv_def
      using c1 c2 c3 c5 by (simp add: n1 e1)
  next
    case ScrollEndCall
    have fl: "scrollFlag w" using inv nd tm ScrollEndCall inv_next_ScrollEnd_flag by blast
    have eq: "fire tm w = onScroll True w1"
      by (simp add: fire_def tm ScrollEndCall w1_def)
    have c1: "\<forall>h' d'. (h', d', SetScrollFlag) \<notin> set (timers w1)"
      using i1 fl by (auto simp add: t1)
    have inv1: "throttle_inv w1" unfolding throttle_inv_def
      using c1 c2 c3 c5 fl by (simp add: n1 e1 f1)
    have none: "\<And>h' d'. (h', d', ScrollEndCall) \<notin> set (timers w1)"
    proof
      fix h' d' assume "(h', d', ScrollEndCall) \<in> set (timers w1)"
      then have m: "(h', d', ScrollEndCall) \<in> set (timers w)" and ne: "h' \<noteq> h"
        by (auto simp add: t1)
      from i3[OF m] i3 mem ScrollEndCall have "Some h' = Some h" by metis
      with ne show False by simp
    qed
    show ?thesis unfolding eq using inv1 none by (rule inv_onScroll_True)
  qed
qed

lemma throttle_inv_fields:
  "timers w' = timers w \<Longrightarrow> scrollFlag w' = scrollFlag w \<Longrightarrow> scrollEnd w' = scrollEnd w \<Longrightarrow>
   now w' = now w \<Longrightarrow> throttle_inv w' = throttle_inv w"
  by (simp add: throttle_inv_def)

lemma inv_step:
  assumes "throttle_inv w" "do_step P s w = Some w'"
  shows "throttle_inv w'"
proof (cases s)
  case (Scroll t y)
  from assms(2) Scroll have en: "now w \<le> t" "\<And>h d c. (h, d, c) \<in> set (timers w) \<Longrightarrow> t \<le> d"
    by (auto simp add: do_step_def list_all_iff split: if_splits)
  define w1 where "w1 = w\<lparr> now := t, scrollTop := y \<rparr>"
  have i1: "throttle_inv w1"
    using assms(1) en(2) unfolding throttle_inv_def w1_def by simp
  from assms(2) Scroll en(1) have "w' = onScroll False w1 \<or> w' = w1"
    by (auto simp add: do_step_def Let_def w1_def split: if_splits)
  then show ?thesis using i1 inv_onScroll_False[OF i1] by auto
next
  case Timer
  with assms show ?thesis
    by (auto simp add: do_step_def inv_fire split: option.splits)
next
  case Frame
  with assms(2) obtain x rest where "w' = w\<lparr> frames := rest, writes := x \<rparr>"
    by (auto simp add: do_step_def split: list.splits)
  then show ?thesis using assms(1) throttle_inv_fields[of w' w] by simp
next
  case Destroy
  with assms(2) have "w' = w \<or> w' = w\<lparr> listening := False, module_instance := False \<rparr>"
    by (auto simp add: do_step_def exports_destroy_def unbind_def reset_def)
  then show ?thesis using assms(1) throttle_inv_fields[of w' w] by auto
qed

lemma inv_run: "throttle_inv w \<Longrightarrow> run P steps w = Some w' \<Longrightarrow> throttle_inv w'"
proof (induction steps arbitrary: w)
  case Nil
  then show ?case by simp
next
  case (Cons s steps)
  then show ?case by (auto split: option.splits dest: inv_step)
qed

lemma inv_init: "scrollFlag w \<Longrightarrow> timers w = [] \<Longrightarrow> throttle_inv w"
  by (simp add: throttle_inv_def)


text \<open>
  Claim C9. From a state in which the flag is set and no timeout is pending, after any
  sequence of scroll events, runs of timeouts, runs of frame callbacks and calls of
  \<open>destroy\<close>: whenever the timeout that runs next is the trailing one (the one that calls
  \<^verbatim>\<open>onScroll(e, true)\<close>, not cleared), the flag is set, so that the call is not dropped and
  calls \<open>animate\<close>, with the scroll position of that moment.
\<close>

theorem trailing_call_is_never_dropped:
  assumes "scrollFlag w0" "timers w0 = []" "run P steps w0 = Some w"
    and "next_due (timers w) = Some (h, due, ScrollEndCall)"
  shows "scrollFlag w \<and>
         (\<exists>w'. do_step P Timer w = Some w' \<and>
               animated w' = animated w @ [(due, scrollTop w)])"
proof -
  have inv: "throttle_inv w" using assms(1-3) inv_init inv_run by blast
  have fl: "scrollFlag w" using inv assms(4) by (rule inv_next_ScrollEnd_flag)
  have "(h, due, ScrollEndCall) \<in> set (timers w)" using assms(4) by (rule next_due_member)
  with inv have "now w \<le> due" unfolding throttle_inv_def by blast
  then have "animated (fire (h, due, ScrollEndCall) w) = animated w @ [(due, scrollTop w)]"
    using fl by (simp add: fire_def onScroll_True_fields max_def)
  with fl assms(4) show ?thesis by (simp add: do_step_def)
qed

theorem trailing_call_is_never_dropped_witness:
  "run demo_platform [Scroll 0 30, Scroll 5 40, Timer] demo_world =
     Some (demo_world\<lparr> scrollFlag := True, scrollEnd := Some 2, now := 16, scrollTop := 40,
             timers := [(2, 64, ScrollEndCall)], nextHandle := 3, frames := [30],
             animated := [(0, 30)] \<rparr>) \<and>
   (\<exists>w'. do_step demo_platform Timer
            (demo_world\<lparr> scrollFlag := True, scrollEnd := Some 2, now := 16, scrollTop := 40,
               timers := [(2, 64, ScrollEndCall)], nextHandle := 3, frames := [30],
               animated := [(0, 30)] \<rparr>) = Some w' \<and>
         animated w' = [(0, 30), (64, 40)])"
proof -
  define w where "w = demo_world\<lparr> scrollFlag := True, scrollEnd := Some 2, now := 16,
    scrollTop := 40, timers := [(2, 64, ScrollEndCall)], nextHandle := 3, frames := [30],
    animated := [(0, 30)] \<rparr>"
  have h: "scrollFlag demo_world" "timers demo_world = []"
    by (simp_all add: demo_world_def)
  have r: "run demo_platform [Scroll 0 30, Scroll 5 40, Timer] demo_world = Some w"
    by (simp add: demo_world_def throttle_defs w_def)
  have n: "next_due (timers w) = Some (2, 64, ScrollEndCall)"
    by (simp add: w_def)
  from trailing_call_is_never_dropped[OF h r n] r show ?thesis
    by (simp add: w_def)
qed

text \<open>
  Claim C4: \<open>destroy\<close> cancels the pending trailing timeout, and a trailing timeout set
  before \<open>destroy\<close> that runs after it writes to no element. The program does otherwise:
  \<open>reset\<close>, which \<open>destroy\<close> calls and whose comment says that it resets the module to its
  primary state, does nothing. After a scroll event at time 0 and \<open>destroy\<close>, both
  timeouts are still pending; the trailing one runs at 64 ms, calls \<open>animate\<close>, and the
  frame callback writes the styles of the elements again.
\<close>

theorem destroy_leaves_trailing_timeout:
  "\<exists>w1 w2.
     run demo_platform [Scroll 0 100, Destroy] demo_world = Some w1 \<and>
     \<not> module_instance w1 \<and> \<not> listening w1 \<and>
     timers w1 = [(1, 16, SetScrollFlag), (2, 64, ScrollEndCall)] \<and>
     animated w1 = [(0, 100)] \<and> writes w1 = [] \<and>
     run demo_platform [Frame, Timer, Timer, Frame] w1 = Some w2 \<and>
     animated w2 = [(0, 100), (64, 100)] \<and>
     writes w2 =
        [CssSet ''body'' ''padding-top'' ''15px'',
         CssSet ''body .logo'' ''opacity'' ''0.5'',
         CssSetMap ''body .logo''
           [(''-webkit-transform'', ''rotate(45deg) scale(0.75) ''),
            (''-ms-transform'', ''rotate(45deg) scale(0.75) ''),
            (''transform'', ''rotate(45deg) scale(0.75) '')],
         CssSet ''body'' ''padding-top'' ''15px'',
         CssSet ''body .logo'' ''opacity'' ''0.5'',
         CssSetMap ''body .logo''
           [(''-webkit-transform'', ''rotate(45deg) scale(0.75) ''),
            (''-ms-transform'', ''rotate(45deg) scale(0.75) ''),
            (''transform'', ''rotate(45deg) scale(0.75) '')]]"
  by (simp add: demo_world_def throttle_defs exports_destroy_def unbind_def reset_def
      animateSelector_def demo_valueStrings)


end

